theory Spec2Isabelle
  imports Complex_Main "HOL-Library.Word"
begin

unbundle bit_operations_syntax

section \<open>Python strings\<close>

text \<open>
  A Python \<open>str\<close> is modelled as a \<open>string\<close> whose characters are the code points
  0..255 (Latin-1), one \<open>char\<close> per code point, so that \<open>length\<close> is Python's
  \<open>len\<close>. The library operations that the pipeline uses are written out on this
  alphabet.
\<close>

datatype py_error = IndexError | ValidationError

fun error_str :: "py_error \<Rightarrow> string" where
  \<comment> \<open>\<open>str(e)\<close>\<close>
  "error_str IndexError = ''string index out of range''"
| "error_str ValidationError =
     ''1 validation error for APIDocument'' @ [CHR 0x0A] @ ''api_endpoint'' @ [CHR 0x0A]
       @ ''  str type expected (type=type_error.str)''"

definition isspace :: "char \<Rightarrow> bool" where
  \<comment> \<open>\<open>str.isspace\<close> on one character: 9..13, 28..32, 133 and 160.\<close>
  "isspace c = (of_char c \<in> {9, 10, 11, 12, 13, 28, 29, 30, 31, 32, 133, 160 :: nat})"

definition strip :: "string \<Rightarrow> string" where
  \<comment> \<open>\<open>s.strip()\<close>: leading and trailing whitespace removed.\<close>
  "strip s = rev (dropWhile isspace (rev (dropWhile isspace s)))"

definition py_getitem :: "string \<Rightarrow> int \<Rightarrow> py_error + char" where
  \<comment> \<open>\<open>s[i]\<close>: a negative index counts from the end, out of range raises.\<close>
  "py_getitem s i =
     (let n = int (length s); j = (if i < 0 then n + i else i)
      in if 0 \<le> j \<and> j < n then Inr (s ! nat j) else Inl IndexError)"

definition clamp_index :: "nat \<Rightarrow> int \<Rightarrow> nat" where
  \<comment> \<open>how a slice bound is normalised: negative counts from the end, then clipped.\<close>
  "clamp_index n i = (if i < 0 then nat (max (int n + i) 0) else min (nat i) n)"

definition py_slice :: "string \<Rightarrow> int \<Rightarrow> int \<Rightarrow> string" where
  \<comment> \<open>\<open>s[a:b]\<close>\<close>
  "py_slice s a b =
     (let lo = clamp_index (length s) a; hi = clamp_index (length s) b
      in take (hi - lo) (drop lo s))"

section \<open>\<open>chunk_text\<close> (src/core/utils.py)\<close>

definition is_break :: "char \<Rightarrow> bool" where
  \<comment> \<open>\<open>text[i] in '.!?\n'\<close>\<close>
  "is_break c = (c \<in> set [CHR ''.'', CHR ''!'', CHR ''?'', CHR 0x0A])"

definition snap_start :: "string \<Rightarrow> int \<Rightarrow> int \<Rightarrow> int" where
  \<comment> \<open>lines 52-55: \<open>for i in range(start, max(start - overlap, 0), -1)\<close>; the first
      \<open>i\<close> with \<open>i < len(text)\<close> and a break character gives \<open>start = i + 1\<close>.
      Every \<open>i\<close> of the range is at least 1, so \<open>text[i]\<close> is \<open>text ! nat i\<close>.\<close>
  "snap_start text start overlap =
     (case find (\<lambda>i. i < int (length text) \<and> is_break (text ! nat i))
             (rev [max (start - overlap) 0 + 1 .. start]) of
        Some i \<Rightarrow> i + 1
      | None \<Rightarrow> start)"

fun scan_end :: "string \<Rightarrow> int list \<Rightarrow> py_error + int option" where
  "scan_end text [] = Inr None"
| "scan_end text (i # rest) =
     (case py_getitem text i of
        Inl e \<Rightarrow> Inl e
      | Inr c \<Rightarrow> if is_break c then Inr (Some i) else scan_end text rest)"

definition snap_end :: "string \<Rightarrow> int \<Rightarrow> int \<Rightarrow> py_error + int" where
  \<comment> \<open>lines 59-62: \<open>for i in range(end, min(end + overlap, text_length))\<close>; the first
      break character gives \<open>end = i + 1\<close>.\<close>
  "snap_end text endpos overlap =
     (case scan_end text [endpos .. min (endpos + overlap) (int (length text)) - 1] of
        Inl e \<Rightarrow> Inl e
      | Inr None \<Rightarrow> Inr endpos
      | Inr (Some i) \<Rightarrow> Inr (i + 1))"

definition window :: "string \<Rightarrow> int \<Rightarrow> int \<Rightarrow> int \<Rightarrow> py_error + int \<times> int" where
  \<comment> \<open>lines 47-62 of one iteration: the bounds \<open>(start, end)\<close> of the slice it takes.\<close>
  "window text chunk_size overlap start =
     (let endpos = start + chunk_size;
          start' = (if start > 0 then snap_start text start overlap else start)
      in if endpos < int (length text)
         then (case snap_end text endpos overlap of
                 Inl e \<Rightarrow> Inl e
               | Inr endpos' \<Rightarrow> Inr (start', endpos'))
         else Inr (start', endpos))"

definition append_chunk :: "string list \<Rightarrow> string \<Rightarrow> string list" where
  \<comment> \<open>lines 65-66: \<open>if chunk: chunks.append(chunk)\<close>\<close>
  "append_chunk chunks chunk = (if chunk \<noteq> [] then chunks @ [chunk] else chunks)"

partial_function (option) chunk_loop ::
  "string \<Rightarrow> int \<Rightarrow> int \<Rightarrow> int \<Rightarrow> string list \<Rightarrow> (py_error + string list) option" where
  "chunk_loop text chunk_size overlap start chunks =
     (if start < int (length text) then
        (case window text chunk_size overlap start of
           Inl e \<Rightarrow> Some (Inl e)
         | Inr (start', endpos) \<Rightarrow>
             chunk_loop text chunk_size overlap (endpos - overlap)
               (append_chunk chunks (strip (py_slice text start' endpos))))
      else Some (Inr chunks))"

declare chunk_loop.simps [code]

definition chunk_text :: "string \<Rightarrow> int \<Rightarrow> int \<Rightarrow> (py_error + string list) option" where
  \<comment> \<open>\<open>None\<close>: the loop does not return.\<close>
  "chunk_text text chunk_size overlap =
     (if text = [] then Some (Inr []) else chunk_loop text chunk_size overlap 0 [])"

section \<open>Schemas (src/data_ingestion/schemas.py)\<close>

datatype DocumentType =
  API_ENDPOINT | PARAMETER | EXAMPLE | RESPONSE_SCHEMA | ERROR_CODE | OVERVIEW | TUTORIAL

fun DocumentType_value :: "DocumentType \<Rightarrow> string" where
  "DocumentType_value API_ENDPOINT = ''api_endpoint''"
| "DocumentType_value PARAMETER = ''parameter''"
| "DocumentType_value EXAMPLE = ''example''"
| "DocumentType_value RESPONSE_SCHEMA = ''response_schema''"
| "DocumentType_value ERROR_CODE = ''error_code''"
| "DocumentType_value OVERVIEW = ''overview''"
| "DocumentType_value TUTORIAL = ''tutorial''"

text \<open>A \<open>datetime\<close> is kept as its ISO-8601 text, which is what \<open>isoformat()\<close> returns.\<close>

type_synonym datetime = string

definition isoformat :: "datetime \<Rightarrow> string" where
  "isoformat t = t"

text \<open>The values that the metadata dictionaries of the pipeline hold.\<close>

datatype py_value = VStr string | VInt int | VSet "string set"

record RawDocument =
  url :: string
  content :: string
  content_type :: string
  headers :: "string \<rightharpoonup> string"
  timestamp :: datetime

section \<open>Classification (\<open>DocumentProcessor._classify_document\<close>)\<close>

definition lower_char :: "char \<Rightarrow> char" where
  \<comment> \<open>\<open>str.lower\<close> on one code point below 256: A-Z and the capital letters
      192..222 other than the multiplication sign 215 move up by 32.\<close>
  "lower_char c =
     (let n = (of_char c :: nat)
      in if (65 \<le> n \<and> n \<le> 90) \<or> (192 \<le> n \<and> n \<le> 222 \<and> n \<noteq> 215)
         then char_of (n + 32) else c)"

definition lower :: "string \<Rightarrow> string" where
  "lower s = map lower_char s"

fun str_contains :: "string \<Rightarrow> string \<Rightarrow> bool" where
  \<comment> \<open>\<open>needle in hay\<close> on strings: \<open>needle\<close> occurs as a contiguous part.\<close>
  "str_contains [] needle = (needle = [])"
| "str_contains (c # cs) needle =
     (take (length needle) (c # cs) = needle \<or> str_contains cs needle)"

definition classify_document :: "RawDocument \<Rightarrow> DocumentType" where
  "classify_document raw_doc =
     (let url_l = lower (url raw_doc);
          content_l = lower (content raw_doc)
      in if str_contains content_l ''example'' \<or> str_contains url_l ''example'' then EXAMPLE
         else if str_contains content_l ''parameter'' \<or> str_contains url_l ''param''
           then PARAMETER
         else if str_contains content_l ''response'' \<or> str_contains content_l ''schema''
           then RESPONSE_SCHEMA
         else if str_contains content_l ''error'' \<or> str_contains content_l ''status''
           then ERROR_CODE
         else if str_contains content_l ''tutorial'' \<or> str_contains content_l ''guide''
           then TUTORIAL
         else if str_contains url_l ''/#'' \<or> str_contains content_l ''endpoint''
           then API_ENDPOINT
         else OVERVIEW)"

text \<open>
  The classifier as the specification words it: an ordered list of rules over the
  lower-cased content and URL, the first rule that matches gives the type, and
  \<open>overview\<close> when none does.
\<close>

definition classify_rules :: "((string \<Rightarrow> string \<Rightarrow> bool) \<times> DocumentType) list" where
  "classify_rules =
     [(\<lambda>c u. str_contains c ''example'' \<or> str_contains u ''example'', EXAMPLE),
      (\<lambda>c u. str_contains c ''parameter'' \<or> str_contains u ''param'', PARAMETER),
      (\<lambda>c u. str_contains c ''response'' \<or> str_contains c ''schema'', RESPONSE_SCHEMA),
      (\<lambda>c u. str_contains c ''error'' \<or> str_contains c ''status'', ERROR_CODE),
      (\<lambda>c u. str_contains c ''tutorial'' \<or> str_contains c ''guide'', TUTORIAL),
      (\<lambda>c u. str_contains u ''/#'' \<or> str_contains c ''endpoint'', API_ENDPOINT)]"

fun first_match ::
  "((string \<Rightarrow> string \<Rightarrow> bool) \<times> DocumentType) list \<Rightarrow> string \<Rightarrow> string \<Rightarrow> DocumentType" where
  "first_match [] c u = OVERVIEW"
| "first_match ((p, t) # rules) c u = (if p c u then t else first_match rules c u)"

definition classify_spec :: "string \<Rightarrow> string \<Rightarrow> DocumentType" where
  "classify_spec u c = first_match classify_rules (lower c) (lower u)"

section \<open>Metadata (\<open>DocumentProcessor._extract_metadata\<close>)\<close>

text \<open>
  What lies outside the repository is a parameter of the model: the regular-expression
  search \<open>re.findall(pattern, content, re.IGNORECASE)\<close>, and the two clocks
  \<open>datetime.utcnow()\<close> and \<open>time.time()\<close>, each a sequence of readings of which every
  call takes the next one.
\<close>

record env =
  re_findall :: "string \<Rightarrow> string \<Rightarrow> string list"
  utcnow :: "nat \<Rightarrow> datetime"
  time_time :: "nat \<Rightarrow> real"

fun split :: "string \<Rightarrow> char \<Rightarrow> string list" where
  \<comment> \<open>\<open>s.split(sep)\<close> with a separator of one character\<close>
  "split [] sep = [[]]"
| "split (c # cs) sep =
     (if c = sep then [] # split cs sep
      else (case split cs sep of
              p # ps \<Rightarrow> (c # p) # ps
            | [] \<Rightarrow> [[c]]))"

fun endpoint_of_parts :: "string list \<Rightarrow> string option" where
  \<comment> \<open>lines 98-102: the loop stops at the first part that is exactly \<open>#\<close> and takes
      the part after it, if there is one.\<close>
  "endpoint_of_parts [] = None"
| "endpoint_of_parts (part # rest) =
     (if part = ''#'' then (case rest of [] \<Rightarrow> None | nxt # _ \<Rightarrow> Some nxt)
      else endpoint_of_parts rest)"

definition parameter_patterns :: "string list" where
  \<comment> \<open>lines 117-121; 0x5C is the backslash, 0x22 and 0x27 the two quotes.\<close>
  "parameter_patterns =
     [''parameter['' @ [CHR 0x5C] @ ''s:]+['' @ [CHR 0x22, CHR 0x5C, CHR 0x27] @ '']?(''
        @ [CHR 0x5C] @ ''w+)['' @ [CHR 0x22, CHR 0x5C, CHR 0x27] @ '']?'',
      ''['' @ [CHR 0x5C] @ ''s{]+('' @ [CHR 0x5C] @ ''w+)['' @ [CHR 0x5C] @ ''s}]+''
        @ [CHR 0x5C] @ ''(string'' @ [CHR 0x5C] @ '')'',
      ''query.*parameter.*[:=]'' @ [CHR 0x5C] @ ''s*['' @ [CHR 0x22, CHR 0x5C, CHR 0x27]
        @ '']('' @ [CHR 0x5C] @ ''w+)['' @ [CHR 0x22, CHR 0x5C, CHR 0x27] @ '']'']"

definition extract_parameters :: "env \<Rightarrow> string \<Rightarrow> py_value" where
  \<comment> \<open>\<open>list(set(parameters))\<close>: the matches without duplicates, in no fixed order.\<close>
  "extract_parameters w text =
     VSet (set (concat (map (\<lambda>pattern. re_findall w pattern text) parameter_patterns)))"

definition extract_metadata ::
  "env \<Rightarrow> RawDocument \<Rightarrow> DocumentType \<Rightarrow> (string \<rightharpoonup> py_value)" where
  "extract_metadata w raw_doc doc_type =
     (let metadata = [''source_type'' \<mapsto> VStr (content_type raw_doc),
                      ''document_type'' \<mapsto> VStr (DocumentType_value doc_type),
                      ''scraped_at'' \<mapsto> VStr (isoformat (timestamp raw_doc)),
                      ''url'' \<mapsto> VStr (url raw_doc)];
          metadata1 =
            (if str_contains (url raw_doc) ''api.nasa.gov''
             then (case endpoint_of_parts (split (url raw_doc) CHR ''/'') of
                     Some part \<Rightarrow> metadata(''api_endpoint'' \<mapsto> VStr part)
                   | None \<Rightarrow> metadata)
             else metadata)
      in if doc_type = PARAMETER
         then metadata1(''extracted_parameters'' \<mapsto> extract_parameters w (content raw_doc))
         else metadata1)"


section \<open>Identifiers (\<open>generate_id\<close>, src/core/utils.py)\<close>

text \<open>
  \<open>generate_id\<close> is \<open>hashlib.md5(text.encode()).hexdigest()[:16]\<close>. The encoding is
  UTF-8 and the digest is MD5 (RFC 1321), written out on bytes and 32-bit words.
\<close>

type_synonym byte = "8 word"
type_synonym u32 = "32 word"

definition encode :: "string \<Rightarrow> byte list" where
  \<comment> \<open>\<open>str.encode()\<close>: one byte below 128, two bytes from 128 to 255.\<close>
  "encode s =
     concat (map (\<lambda>c. let n = (of_char c :: nat)
                       in if n < 128 then [of_nat n]
                          else [of_nat (192 + n div 64), of_nat (128 + n mod 64)]) s)"

definition md5_K :: "u32 list" where
  "md5_K =
     [0xd76aa478, 0xe8c7b756, 0x242070db, 0xc1bdceee,
      0xf57c0faf, 0x4787c62a, 0xa8304613, 0xfd469501,
      0x698098d8, 0x8b44f7af, 0xffff5bb1, 0x895cd7be,
      0x6b901122, 0xfd987193, 0xa679438e, 0x49b40821,
      0xf61e2562, 0xc040b340, 0x265e5a51, 0xe9b6c7aa,
      0xd62f105d, 0x02441453, 0xd8a1e681, 0xe7d3fbc8,
      0x21e1cde6, 0xc33707d6, 0xf4d50d87, 0x455a14ed,
      0xa9e3e905, 0xfcefa3f8, 0x676f02d9, 0x8d2a4c8a,
      0xfffa3942, 0x8771f681, 0x6d9d6122, 0xfde5380c,
      0xa4beea44, 0x4bdecfa9, 0xf6bb4b60, 0xbebfbc70,
      0x289b7ec6, 0xeaa127fa, 0xd4ef3085, 0x04881d05,
      0xd9d4d039, 0xe6db99e5, 0x1fa27cf8, 0xc4ac5665,
      0xf4292244, 0x432aff97, 0xab9423a7, 0xfc93a039,
      0x655b59c3, 0x8f0ccc92, 0xffeff47d, 0x85845dd1,
      0x6fa87e4f, 0xfe2ce6e0, 0xa3014314, 0x4e0811a1,
      0xf7537e82, 0xbd3af235, 0x2ad7d2bb, 0xeb86d391]"

definition md5_S :: "nat list" where
  "md5_S =
     [7, 12, 17, 22, 7, 12, 17, 22, 7, 12, 17, 22, 7, 12, 17, 22,
      5, 9, 14, 20, 5, 9, 14, 20, 5, 9, 14, 20, 5, 9, 14, 20,
      4, 11, 16, 23, 4, 11, 16, 23, 4, 11, 16, 23, 4, 11, 16, 23,
      6, 10, 15, 21, 6, 10, 15, 21, 6, 10, 15, 21, 6, 10, 15, 21]"

definition md5_pad :: "byte list \<Rightarrow> byte list" where
  \<comment> \<open>the byte 0x80, zeros up to 56 modulo 64, the length in bits on 8 bytes.\<close>
  "md5_pad msg =
     msg @ [0x80] @ replicate ((119 - length msg mod 64) mod 64) 0
       @ map (\<lambda>i. ucast (drop_bit (8 * i) (of_nat (8 * length msg) :: 64 word))) [0..<8]"

definition md5_word :: "byte list \<Rightarrow> nat \<Rightarrow> u32" where
  \<comment> \<open>the \<open>j\<close>-th little-endian word of a block of 64 bytes, \<open>j < 16\<close>.\<close>
  "md5_word block j =
     ucast (block ! (4 * j)) + push_bit 8 (ucast (block ! (4 * j + 1)))
       + push_bit 16 (ucast (block ! (4 * j + 2))) + push_bit 24 (ucast (block ! (4 * j + 3)))"

type_synonym md5_state = "u32 \<times> u32 \<times> u32 \<times> u32"

definition md5_step :: "byte list \<Rightarrow> md5_state \<Rightarrow> nat \<Rightarrow> md5_state" where
  "md5_step block st i =
     (case st of (a, b, c, d) \<Rightarrow>
        let (f, g) =
              (if i < 16 then ((b AND c) OR (NOT b AND d), i)
               else if i < 32 then ((d AND b) OR (NOT d AND c), (5 * i + 1) mod 16)
               else if i < 48 then (b XOR c XOR d, (3 * i + 5) mod 16)
               else (c XOR (b OR NOT d), (7 * i) mod 16));
            f' = f + a + md5_K ! i + md5_word block g
        in (d, b + word_rotl (md5_S ! i) f', b, c))"

definition md5_compress :: "md5_state \<Rightarrow> byte list \<Rightarrow> md5_state" where
  "md5_compress st block =
     (case (st, foldl (md5_step block) st [0..<64]) of
        ((a0, b0, c0, d0), (a, b, c, d)) \<Rightarrow> (a0 + a, b0 + b, c0 + c, d0 + d))"

definition md5_init :: md5_state where
  "md5_init = (0x67452301, 0xefcdab89, 0x98badcfe, 0x10325476)"

definition le_bytes32 :: "u32 \<Rightarrow> byte list" where
  "le_bytes32 x = [ucast x, ucast (drop_bit 8 x), ucast (drop_bit 16 x), ucast (drop_bit 24 x)]"

definition md5_digest :: "byte list \<Rightarrow> byte list" where
  "md5_digest msg =
     (let p = md5_pad msg;
          st = foldl (\<lambda>st k. md5_compress st (take 64 (drop (64 * k) p))) md5_init
                 [0..<length p div 64]
      in case st of (a, b, c, d) \<Rightarrow> concat (map le_bytes32 [a, b, c, d]))"

definition hex_digit :: "nat \<Rightarrow> char" where
  "hex_digit n = ''0123456789abcdef'' ! (n mod 16)"

definition hex_byte :: "byte \<Rightarrow> string" where
  "hex_byte b = [hex_digit (unat b div 16), hex_digit (unat b mod 16)]"

definition md5_hexdigest :: "byte list \<Rightarrow> string" where
  "md5_hexdigest msg = concat (map hex_byte (md5_digest msg))"

definition generate_id :: "string \<Rightarrow> string" where
  "generate_id text = take 16 (md5_hexdigest (encode text))"

definition digit_char :: "nat \<Rightarrow> char" where
  "digit_char n = ''0123456789'' ! (n mod 10)"

function str_nat :: "nat \<Rightarrow> string" where
  \<comment> \<open>\<open>str(n)\<close> for \<open>n \<ge> 0\<close>: the decimal digits.\<close>
  "str_nat n = (if n < 10 then [digit_char n] else str_nat (n div 10) @ [digit_char (n mod 10)])"
  by pat_completeness auto
termination
  by (relation "measure id") auto

declare str_nat.simps [simp del]

definition str_int :: "int \<Rightarrow> string" where
  "str_int i = (if i < 0 then CHR ''-'' # str_nat (nat (- i)) else str_nat (nat i))"


section \<open>Chunks (\<open>APIDocument\<close>, src/data_ingestion/schemas.py)\<close>

record APIDocument =
  doc_id :: string  \<comment> \<open>the field \<open>id\<close>\<close>
  doc_content :: string  \<comment> \<open>the field \<open>content\<close>\<close>
  document_type :: DocumentType
  source_url :: string
  api_endpoint :: "string option"
  metadata :: "string \<rightharpoonup> py_value"
  embedding :: "real list option"
  created_at :: datetime
  updated_at :: datetime

definition generate_id_if_missing :: "string option \<Rightarrow> (string \<rightharpoonup> string) \<Rightarrow> string" where
  \<comment> \<open>the validator of \<open>id\<close>; \<open>vals\<close> is the dictionary \<open>values\<close> that pydantic
      hands to it, \<open>vals.get(k, '')\<close> is the empty string for a missing key.\<close>
  "generate_id_if_missing v vals =
     (case v of
        None \<Rightarrow>
          (let text = (case vals ''content'' of Some c \<Rightarrow> c | None \<Rightarrow> []);
               source = (case vals ''source_url'' of Some s \<Rightarrow> s | None \<Rightarrow> []);
               combined = take 100 text @ source
           in take 16 (md5_hexdigest (encode combined)))
      | Some given \<Rightarrow> given)"

definition validate_optional_str :: "py_value option \<Rightarrow> py_error + string option" where
  \<comment> \<open>pydantic on a field \<open>Optional[str]\<close>: \<open>None\<close> and a str pass, an int is turned
      into its text, anything else is a validation error.\<close>
  "validate_optional_str v =
     (case v of
        None \<Rightarrow> Inr None
      | Some (VStr s) \<Rightarrow> Inr (Some s)
      | Some (VInt i) \<Rightarrow> Inr (Some (str_int i))
      | Some (VSet _) \<Rightarrow> Inl ValidationError)"

definition new_APIDocument ::
  "env \<Rightarrow> nat \<Rightarrow> string \<Rightarrow> string \<Rightarrow> DocumentType \<Rightarrow> string \<Rightarrow> py_value option
     \<Rightarrow> (string \<rightharpoonup> py_value) \<Rightarrow> (py_error + APIDocument) \<times> nat" where
  \<comment> \<open>\<open>APIDocument(id=..., content=..., document_type=..., source_url=...,
      api_endpoint=..., metadata=...)\<close> at clock position \<open>n\<close>: an id is given, which the
      validator returns as it is; \<open>created_at\<close> and \<open>updated_at\<close> each read the clock.\<close>
  "new_APIDocument w n ident text ty src endpoint md =
     (case validate_optional_str endpoint of
        Inl e \<Rightarrow> (Inl e, n + 2)
      | Inr ep \<Rightarrow>
          (Inr \<lparr>doc_id = generate_id_if_missing (Some ident) Map.empty,
                doc_content = text,
                document_type = ty,
                source_url = src,
                api_endpoint = ep,
                metadata = md,
                embedding = None,
                created_at = utcnow w n,
                updated_at = utcnow w (n + 1)\<rparr>, n + 2))"

record ProcessedDocument =
  original_url :: string
  chunks :: "APIDocument list"
  total_chunks :: int
  processing_time :: real
  errors :: "string list"

section \<open>\<open>DocumentProcessor\<close> (src/data_ingestion/document_processor.py)\<close>

record Settings =
  settings_chunk_size :: int
  settings_chunk_overlap :: int

definition default_settings :: Settings where
  "default_settings = \<lparr>settings_chunk_size = 1000, settings_chunk_overlap = 200\<rparr>"

record DocumentProcessor =
  chunk_size :: int
  chunk_overlap :: int

definition py_or :: "int option \<Rightarrow> int \<Rightarrow> int" where
  \<comment> \<open>\<open>x or d\<close> for an optional int: \<open>None\<close> and 0 are false.\<close>
  "py_or x d = (case x of None \<Rightarrow> d | Some v \<Rightarrow> if v = 0 then d else v)"

definition DocumentProcessor_init :: "Settings \<Rightarrow> int option \<Rightarrow> int option \<Rightarrow> DocumentProcessor" where
  "DocumentProcessor_init settings given_size given_overlap =
     \<lparr>chunk_size = py_or given_size (settings_chunk_size settings),
      chunk_overlap = py_or given_overlap (settings_chunk_overlap settings)\<rparr>"

fun create_chunks_loop ::
  "env \<Rightarrow> string \<Rightarrow> DocumentType \<Rightarrow> (string \<rightharpoonup> py_value) \<Rightarrow> nat \<Rightarrow> (nat \<times> string) list
     \<Rightarrow> nat \<Rightarrow> (py_error + APIDocument list) \<times> nat" where
  \<comment> \<open>lines 135-154 over \<open>enumerate(text_chunks)\<close>; \<open>n_total\<close> is \<open>len(text_chunks)\<close>
      and \<open>n\<close> the clock position. An exception leaves the loop.\<close>
  "create_chunks_loop w src ty md n_total [] n = (Inr [], n)"
| "create_chunks_loop w src ty md n_total ((i, chunk_content) # rest) n =
     (if length (strip chunk_content) < 50
      then create_chunks_loop w src ty md n_total rest n
      else (case new_APIDocument w n
                   (generate_id (src @ ''_'' @ str_nat i))
                   chunk_content ty src (md ''api_endpoint'')
                   (md(''chunk_index'' \<mapsto> VInt (int i),
                       ''total_chunks'' \<mapsto> VInt (int n_total),
                       ''chunk_size'' \<mapsto> VInt (int (length chunk_content)))) of
              (Inl e, n1) \<Rightarrow> (Inl e, n1)
            | (Inr doc, n1) \<Rightarrow>
                (case create_chunks_loop w src ty md n_total rest n1 of
                   (Inl e, n2) \<Rightarrow> (Inl e, n2)
                 | (Inr docs, n2) \<Rightarrow> (Inr (doc # docs), n2))))"

definition create_chunks ::
  "env \<Rightarrow> DocumentProcessor \<Rightarrow> string \<Rightarrow> string \<Rightarrow> DocumentType \<Rightarrow> (string \<rightharpoonup> py_value)
     \<Rightarrow> nat \<Rightarrow> ((py_error + APIDocument list) \<times> nat) option" where
  \<comment> \<open>\<open>None\<close>: \<open>chunk_text\<close> does not return.\<close>
  "create_chunks w self text src ty md n =
     (case chunk_text text (chunk_size self) (chunk_overlap self) of
        None \<Rightarrow> None
      | Some (Inl e) \<Rightarrow> Some (Inl e, n)
      | Some (Inr text_chunks) \<Rightarrow>
          Some (create_chunks_loop w src ty md (length text_chunks)
                  (enumerate 0 text_chunks) n))"

definition process_single_document ::
  "env \<Rightarrow> DocumentProcessor \<Rightarrow> RawDocument \<Rightarrow> nat
     \<Rightarrow> ((py_error + ProcessedDocument) \<times> nat) option" where
  "process_single_document w self raw_doc n =
     (let start_time = time_time w n;
          doc_type = classify_document raw_doc;
          md = extract_metadata w raw_doc doc_type
      in case create_chunks w self (content raw_doc) (url raw_doc) doc_type md (n + 1) of
           None \<Rightarrow> None
         | Some (Inl e, n1) \<Rightarrow> Some (Inl e, n1)
         | Some (Inr docs, n1) \<Rightarrow>
             Some (Inr \<lparr>original_url = url raw_doc,
                        chunks = docs,
                        total_chunks = int (length docs),
                        processing_time = time_time w n1 - start_time,
                        errors = []\<rparr>, n1 + 1))"

fun process_raw_documents ::
  "env \<Rightarrow> DocumentProcessor \<Rightarrow> RawDocument list \<Rightarrow> nat
     \<Rightarrow> (ProcessedDocument list \<times> nat) option" where
  \<comment> \<open>lines 20-40; \<open>None\<close>: the processing of some document does not return.\<close>
  "process_raw_documents w self [] n = Some ([], n)"
| "process_raw_documents w self (raw_doc # rest) n =
     (case process_single_document w self raw_doc n of
        None \<Rightarrow> None
      | Some (r, n1) \<Rightarrow>
          (case process_raw_documents w self rest n1 of
             None \<Rightarrow> None
           | Some (processed_docs, n2) \<Rightarrow>
               Some ((case r of
                        Inr processed \<Rightarrow> processed
                      | Inl e \<Rightarrow>
                          \<lparr>original_url = url raw_doc,
                           chunks = [],
                           total_chunks = 0,
                           processing_time = 0,
                           errors = [error_str e]\<rparr>) # processed_docs, n2)))"


section \<open>Auxiliary notions for the proofs\<close>

definition chunk_bound :: "int \<Rightarrow> int \<Rightarrow> int" where
  \<comment> \<open>the longest slice one iteration can take\<close>
  "chunk_bound cs ov = max (cs + ov) (cs + 2 * ov - 2)"

definition good_chunk :: "int \<Rightarrow> int \<Rightarrow> string \<Rightarrow> bool" where
  \<comment> \<open>the invariant of the list of chunks\<close>
  "good_chunk cs ov c = (c \<noteq> [] \<and> strip c = c \<and> int (length c) \<le> chunk_bound cs ov)"

definition keep :: "nat \<times> string \<Rightarrow> bool" where
  \<comment> \<open>the enumerated segments that the filter of line 137 lets through\<close>
  "keep e = (50 \<le> length (strip (snd e)))"

text \<open>Inputs for the examples: a clock, a processor with windows of 60 characters and an
  overlap of 1, and a text of 60 letters, 59 spaces and 60 letters.\<close>

abbreviation example_env :: env where
  "example_env \<equiv> \<lparr>re_findall = (\<lambda>pattern s. []), utcnow = (\<lambda>k. ''2024-01-01T00:00:00''),
      time_time = (\<lambda>k. real k)\<rparr>"

abbreviation example_processor :: DocumentProcessor where
  "example_processor \<equiv> \<lparr>chunk_size = 60, chunk_overlap = 1\<rparr>"

abbreviation example_text :: string where
  "example_text \<equiv> ''aaaaaaaaaaaaaaaaaaaaaaaaaaaaaaaaaaaaaaaaaaaaaaaaaaaaaaaaaaaa                                                           bbbbbbbbbbbbbbbbbbbbbbbbbbbbbbbbbbbbbbbbbbbbbbbbbbbbbbbbbbbb''"

section \<open>Properties of the segmenter\<close>

lemma dropWhile_last_keep:
  "dropWhile P xs \<noteq> [] \<Longrightarrow> last (dropWhile P xs) = last xs"
  by (induction xs) (auto split: if_splits)

lemma strip_idem: "strip (strip s) = strip s"
proof -
  define t where "t = dropWhile isspace s"
  define u where "u = dropWhile isspace (rev t)"
  have su: "strip s = rev u" by (simp add: strip_def t_def u_def)
  have "dropWhile isspace (rev u) = rev u"
  proof (cases "u = []")
    case True then show ?thesis by simp
  next
    case False
    then have "last u = last (rev t)" unfolding u_def by (rule dropWhile_last_keep)
    moreover from False have tne: "t \<noteq> []" unfolding u_def by auto
    ultimately have "last u = hd t" by (simp add: last_rev)
    moreover have "\<not> isspace (hd t)" using tne unfolding t_def by (rule hd_dropWhile)
    ultimately have "\<not> isspace (hd (rev u))" using False by (simp add: hd_rev)
    with False show ?thesis by (cases "rev u") auto
  qed
  moreover have "dropWhile isspace u = u" unfolding u_def by (rule dropWhile_idem)
  ultimately show ?thesis unfolding su by (simp add: strip_def)
qed

lemma length_strip_le: "length (strip s) \<le> length s"
proof -
  have "length (strip s) \<le> length (dropWhile isspace s)"
    unfolding strip_def using length_dropWhile_le [of isspace "rev (dropWhile isspace s)"] by simp
  also have "\<dots> \<le> length s" by (rule length_dropWhile_le)
  finally show ?thesis .
qed

lemma length_py_slice: "0 \<le> a \<Longrightarrow> a \<le> b \<Longrightarrow> int (length (py_slice s a b)) \<le> b - a"
  by (auto simp: py_slice_def clamp_index_def Let_def min_def)

lemma find_Some_mem: "find P xs = Some x \<Longrightarrow> x \<in> set xs"
  by (induction xs) (auto split: if_splits)

lemma scan_end_ok:
  "\<forall>i \<in> set js. 0 \<le> i \<and> i < int (length text) \<Longrightarrow>
   scan_end text js = Inr None \<or> (\<exists>i \<in> set js. scan_end text js = Inr (Some i))"
  by (induction js) (auto simp: py_getitem_def Let_def)

lemma snap_end_ok:
  assumes "0 \<le> e" "0 \<le> ov"
  shows "\<exists>e'. snap_end text e ov = Inr e' \<and> e \<le> e' \<and> e' \<le> e + ov"
proof -
  let ?js = "[e .. min (e + ov) (int (length text)) - 1]"
  have "\<forall>i \<in> set ?js. 0 \<le> i \<and> i < int (length text)" using assms by auto
  from scan_end_ok [OF this] show ?thesis
    using assms by (auto simp: snap_end_def)
qed

lemma snap_start_bounds:
  assumes "0 \<le> ov"
  shows "snap_start text start ov = start \<or>
         (start - ov + 2 \<le> snap_start text start ov \<and> snap_start text start ov \<le> start + 1
          \<and> 2 \<le> snap_start text start ov)"
proof (cases "find (\<lambda>i. i < int (length text) \<and> is_break (text ! nat i))
             (rev [max (start - ov) 0 + 1 .. start])")
  case None
  then show ?thesis by (simp add: snap_start_def)
next
  case (Some i)
  then have "i \<in> set (rev [max (start - ov) 0 + 1 .. start])"
    by (rule find_Some_mem)
  then have "max (start - ov) 0 + 1 \<le> i \<and> i \<le> start" by simp
  then have "start - ov + 1 \<le> i \<and> 1 \<le> i \<and> i \<le> start" by linarith
  with Some show ?thesis by (simp add: snap_start_def)
qed

lemma window_ok:
  assumes "0 < cs" "0 \<le> ov" "0 \<le> start"
  shows "\<exists>s e. window text cs ov start = Inr (s, e) \<and> start + cs \<le> e \<and> 0 \<le> s \<and> s \<le> e
           \<and> e - s \<le> chunk_bound cs ov"
proof -
  have e0: "0 \<le> start + cs" using assms by simp
  from snap_end_ok [OF e0 assms(2), of "text"] obtain e' where
    e': "snap_end text (start + cs) ov = Inr e'" "start + cs \<le> e'" "e' \<le> start + cs + ov"
    by blast
  define s where "s = (if start > 0 then snap_start text start ov else start)"
  have s: "0 \<le> s \<and> s \<le> start + 1 \<and> (s = start \<or> start - ov + 2 \<le> s)"
    using snap_start_bounds [OF assms(2), of "text" start] assms(3)
    by (auto simp: s_def)
  show ?thesis
  proof (cases "start + cs < int (length text)")
    case True
    then have "window text cs ov start = Inr (s, e')"
      by (simp add: window_def Let_def e' s_def)
    moreover have "s \<le> e'" "e' - s \<le> chunk_bound cs ov"
      using s e' assms by (auto simp: chunk_bound_def)
    ultimately show ?thesis using s e' by blast
  next
    case False
    then have "window text cs ov start = Inr (s, start + cs)"
      by (simp add: window_def Let_def s_def)
    moreover have "s \<le> start + cs" "start + cs - s \<le> chunk_bound cs ov"
      using s assms by (auto simp: chunk_bound_def)
    ultimately show ?thesis using s by blast
  qed
qed

lemma append_chunk_good:
  assumes "\<forall>c \<in> set cks. good_chunk cs ov c" "0 \<le> s" "s \<le> e" "e - s \<le> chunk_bound cs ov"
  shows "\<forall>c \<in> set (append_chunk cks (strip (py_slice text s e))). good_chunk cs ov c"
proof -
  have "int (length (strip (py_slice text s e))) \<le> int (length (py_slice text s e))"
    using length_strip_le by simp
  also have "\<dots> \<le> e - s" using assms by (intro length_py_slice)
  finally have "int (length (strip (py_slice text s e))) \<le> chunk_bound cs ov"
    using assms by simp
  then show ?thesis using assms(1)
    by (auto simp: append_chunk_def good_chunk_def strip_idem)
qed

lemma chunk_loop_total:
  assumes "0 < cs" "0 \<le> ov" "ov < cs"
  shows "0 \<le> start \<Longrightarrow> \<forall>c \<in> set cks. good_chunk cs ov c \<Longrightarrow>
         \<exists>res. chunk_loop text cs ov start cks = Some (Inr res)
               \<and> (\<forall>c \<in> set res. good_chunk cs ov c)"
proof (induction "nat (int (length text) - start)" arbitrary: start cks rule: less_induct)
  case less
  show ?case
  proof (cases "start < int (length text)")
    case False
    then show ?thesis using less.prems by (subst chunk_loop.simps) simp
  next
    case True
    from window_ok [OF assms(1,2) less.prems(1), of "text"] obtain s e where
      w: "window text cs ov start = Inr (s, e)" "start + cs \<le> e" "0 \<le> s" "s \<le> e"
         "e - s \<le> chunk_bound cs ov" by blast
    let ?cks = "append_chunk cks (strip (py_slice text s e))"
    have good: "\<forall>c \<in> set ?cks. good_chunk cs ov c"
      using less.prems(2) w(3,4,5) by (rule append_chunk_good)
    have adv: "start < e - ov" using w(2) assms by linarith
    then have "nat (int (length text) - (e - ov)) < nat (int (length text) - start)"
      using True by linarith
    moreover have "0 \<le> e - ov" using adv less.prems(1) by linarith
    ultimately obtain res where
      "chunk_loop text cs ov (e - ov) ?cks = Some (Inr res)"
      "\<forall>c \<in> set res. good_chunk cs ov c"
      using less.hyps good by blast
    then show ?thesis using True w(1) by (subst chunk_loop.simps) simp
  qed
qed

section \<open>Properties of the identifiers\<close>

lemma hex_digit_mem: "hex_digit n \<in> set ''0123456789abcdef''"
proof -
  have "n mod 16 < length ''0123456789abcdef''" by simp
  then show ?thesis unfolding hex_digit_def by (rule nth_mem)
qed

lemma length_words_bytes:
  "length (case st of (a, b, c, d) \<Rightarrow> concat (map le_bytes32 [a, b, c, d])) = 16"
  by (cases st) (simp add: le_bytes32_def)

lemma length_md5_digest: "length (md5_digest msg) = 16"
  unfolding md5_digest_def Let_def by (rule length_words_bytes)

lemma length_concat_hex_byte: "length (concat (map hex_byte bs)) = 2 * length bs"
  by (induction bs) (simp_all add: hex_byte_def)

lemma length_md5_hexdigest: "length (md5_hexdigest msg) = 32"
  unfolding md5_hexdigest_def length_concat_hex_byte length_md5_digest by simp

lemma pair_subset: "x \<in> S \<Longrightarrow> y \<in> S \<Longrightarrow> set [x, y] \<subseteq> S"
  by simp

lemma set_hex_byte: "set (hex_byte b) \<subseteq> set ''0123456789abcdef''"
  unfolding hex_byte_def by (rule pair_subset [OF hex_digit_mem hex_digit_mem])

lemma set_md5_hexdigest: "set (md5_hexdigest msg) \<subseteq> set ''0123456789abcdef''"
  unfolding md5_hexdigest_def set_concat
proof (rule UN_least)
  fix x assume "x \<in> set (map hex_byte (md5_digest msg))"
  then obtain b where "x = hex_byte b" by auto
  then show "set x \<subseteq> set ''0123456789abcdef''" by (simp only: set_hex_byte)
qed

lemma length_generate_id: "length (generate_id t) = 16"
  unfolding generate_id_def by (simp add: length_md5_hexdigest)

lemma set_generate_id: "set (generate_id t) \<subseteq> set ''0123456789abcdef''"
  unfolding generate_id_def by (rule subset_trans [OF set_take_subset set_md5_hexdigest])

section \<open>Properties of the assembler\<close>

lemma create_chunks_loop_Inr:
  "create_chunks_loop w src ty md N es n = (Inr docs, n') \<Longrightarrow>
     map doc_id docs = map (\<lambda>e. generate_id (src @ ''_'' @ str_nat (fst e))) (filter keep es)
   \<and> map doc_content docs = map snd (filter keep es)
   \<and> map (\<lambda>d. metadata d ''chunk_index'') docs
       = map (\<lambda>e. Some (VInt (int (fst e)))) (filter keep es)
   \<and> (\<forall>d \<in> set docs. metadata d ''total_chunks'' = Some (VInt (int N))
         \<and> metadata d ''chunk_size'' = Some (VInt (int (length (doc_content d))))
         \<and> source_url d = src \<and> document_type d = ty)"
proof (induction es arbitrary: n docs n')
  case Nil
  then show ?case by simp
next
  case (Cons e es)
  obtain i c where e: "e = (i, c)" by (cases e)
  show ?case
  proof (cases "keep e")
    case False
    with Cons.prems e have "create_chunks_loop w src ty md N es n = (Inr docs, n')"
      by (simp add: keep_def)
    from Cons.IH [OF this] False show ?thesis by simp
  next
    case True
    then have long: "\<not> length (strip c) < 50" using e by (simp add: keep_def)
    define ident where "ident = generate_id (src @ ''_'' @ str_nat i)"
    define md' where "md' = md(''chunk_index'' \<mapsto> VInt (int i),
                ''total_chunks'' \<mapsto> VInt (int N),
                ''chunk_size'' \<mapsto> VInt (int (length c)))"
    obtain r1 n1 where d0: "new_APIDocument w n ident c ty src (md ''api_endpoint'') md' = (r1, n1)"
      by (cases "new_APIDocument w n ident c ty src (md ''api_endpoint'') md'")
    obtain r2 n2 where r0: "create_chunks_loop w src ty md N es n1 = (r2, n2)"
      by (cases "create_chunks_loop w src ty md N es n1")
    have step: "create_chunks_loop w src ty md N (e # es) n =
          (case r1 of Inl x \<Rightarrow> (Inl x, n1)
           | Inr doc \<Rightarrow> (case r2 of Inl x \<Rightarrow> (Inl x, n2) | Inr ds \<Rightarrow> (Inr (doc # ds), n2)))"
      using long d0 r0 unfolding e ident_def md'_def
      by (simp split: sum.splits)
    from step Cons.prems obtain doc where r1: "r1 = Inr doc"
      by (cases r1) simp_all
    from step Cons.prems r1 obtain ds where r2: "r2 = Inr ds"
      by (cases r2) simp_all
    from step Cons.prems r1 r2 have docs: "docs = doc # ds" and n2: "n2 = n'" by simp_all
    have d: "new_APIDocument w n ident c ty src (md ''api_endpoint'') md' = (Inr doc, n1)"
      using d0 r1 by simp
    have r: "create_chunks_loop w src ty md N es n1 = (Inr ds, n')"
      using r0 r2 n2 by simp
    from d obtain ep where "validate_optional_str (md ''api_endpoint'') = Inr ep"
      and dd: "doc = \<lparr>doc_id = generate_id_if_missing (Some ident) Map.empty,
                doc_content = c, document_type = ty, source_url = src, api_endpoint = ep,
                metadata = md', embedding = None, created_at = utcnow w n,
                updated_at = utcnow w (n + 1)\<rparr>"
      unfolding new_APIDocument_def
      by (cases "validate_optional_str (md ''api_endpoint'')") auto
    have doc: "doc_id doc = generate_id (src @ ''_'' @ str_nat i)"
      "doc_content doc = c" "source_url doc = src" "document_type doc = ty"
      "metadata doc ''chunk_index'' = Some (VInt (int i))"
      "metadata doc ''total_chunks'' = Some (VInt (int N))"
      "metadata doc ''chunk_size'' = Some (VInt (int (length c)))"
      unfolding dd by (simp_all add: generate_id_if_missing_def ident_def md'_def)
    have f: "filter keep (e # es) = e # filter keep es" using True by simp
    note ih = Cons.IH [OF r]
    have 1: "map doc_id docs = map (\<lambda>e. generate_id (src @ ''_'' @ str_nat (fst e))) (filter keep (e # es))"
      unfolding f docs using ih [THEN conjunct1] doc(1) e by simp
    have 2: "map doc_content docs = map snd (filter keep (e # es))"
      unfolding f docs using ih [THEN conjunct2, THEN conjunct1] doc(2) e by simp
    have 3: "map (\<lambda>d. metadata d ''chunk_index'') docs
       = map (\<lambda>e. Some (VInt (int (fst e)))) (filter keep (e # es))"
      unfolding f docs using ih [THEN conjunct2, THEN conjunct2, THEN conjunct1] doc(5) e
      by simp
    have 4: "\<forall>d \<in> set docs. metadata d ''total_chunks'' = Some (VInt (int N))
         \<and> metadata d ''chunk_size'' = Some (VInt (int (length (doc_content d))))
         \<and> source_url d = src \<and> document_type d = ty"
      unfolding docs using ih [THEN conjunct2, THEN conjunct2, THEN conjunct2] doc(2,3,4,6,7)
      by simp
    from 1 2 3 4 show ?thesis by (intro conjI)
  qed
qed

lemma enumerate_nth: "enumerate 0 xs = map (\<lambda>i. (i, xs ! i)) [0..<length xs]"
proof (rule nth_equalityI)
  show "length (enumerate 0 xs) = length (map (\<lambda>i. (i, xs ! i)) [0..<length xs])" by simp
next
  fix i assume "i < length (enumerate 0 xs)"
  then have "i < length xs" by simp
  then show "enumerate 0 xs ! i = map (\<lambda>i. (i, xs ! i)) [0..<length xs] ! i"
    by (simp add: nth_enumerate_eq)
qed

lemma filter_keep_enumerate:
  "filter keep (enumerate 0 segs)
     = map (\<lambda>i. (i, segs ! i)) (filter (\<lambda>i. 50 \<le> length (strip (segs ! i))) [0..<length segs])"
  unfolding enumerate_nth filter_map by (simp add: comp_def keep_def)

lemma filter_nth_upt: "map (\<lambda>i. xs ! i) (filter (\<lambda>i. P (xs ! i)) [0..<length xs]) = filter P xs"
proof -
  have "filter P (map (\<lambda>i. xs ! i) [0..<length xs]) = filter P xs"
    by (simp add: map_nth)
  then show ?thesis by (simp add: filter_map comp_def)
qed

lemma create_chunks_Inr:
  assumes "create_chunks w self text src ty md n = Some (Inr docs, n')"
  shows "\<exists>segs. chunk_text text (chunk_size self) (chunk_overlap self) = Some (Inr segs)
           \<and> create_chunks_loop w src ty md (length segs) (enumerate 0 segs) n = (Inr docs, n')"
proof (cases "chunk_text text (chunk_size self) (chunk_overlap self)")
  case None
  with assms show ?thesis by (simp add: create_chunks_def)
next
  case (Some r)
  show ?thesis
  proof (cases r)
    case (Inl e)
    with Some assms show ?thesis by (simp add: create_chunks_def)
  next
    case (Inr segs)
    with Some assms show ?thesis by (simp add: create_chunks_def)
  qed
qed

lemma create_chunks_loop_total:
  assumes "validate_optional_str (md ''api_endpoint'') = Inr ep"
  shows "\<exists>docs n'. create_chunks_loop w src ty md N es n = (Inr docs, n')"
proof (induction es arbitrary: n)
  case Nil
  show ?case by simp
next
  case (Cons e es)
  obtain i c where e: "e = (i, c)" by (cases e)
  show ?case
  proof (cases "length (strip c) < 50")
    case True
    with Cons.IH [of n] e show ?thesis by simp
  next
    case False
    from Cons.IH [of "n + 2"] obtain ds n2 where
      "create_chunks_loop w src ty md N es (n + 2) = (Inr ds, n2)" by blast
    with False e assms show ?thesis by (simp add: new_APIDocument_def)
  qed
qed

lemma create_chunks_total:
  assumes "0 < chunk_size self" "0 \<le> chunk_overlap self" "chunk_overlap self < chunk_size self"
    and "validate_optional_str (md ''api_endpoint'') = Inr ep"
  shows "\<exists>docs n'. create_chunks w self text src ty md n = Some (Inr docs, n')"
proof -
  have "\<exists>segs. chunk_text text (chunk_size self) (chunk_overlap self) = Some (Inr segs)"
  proof (cases "text = []")
    case True
    then show ?thesis by (simp add: chunk_text_def)
  next
    case False
    have "\<exists>res. chunk_loop text (chunk_size self) (chunk_overlap self) 0 [] = Some (Inr res)
               \<and> (\<forall>c \<in> set res. good_chunk (chunk_size self) (chunk_overlap self) c)"
      using assms(1,2,3) by (intro chunk_loop_total) simp_all
    with False show ?thesis by (auto simp: chunk_text_def)
  qed
  then obtain segs where
    s: "chunk_text text (chunk_size self) (chunk_overlap self) = Some (Inr segs)" by blast
  have "\<exists>docs n'. create_chunks_loop w src ty md (length segs) (enumerate 0 segs) n
          = (Inr docs, n')"
    using assms(4) by (rule create_chunks_loop_total)
  then obtain docs n' where
    "create_chunks_loop w src ty md (length segs) (enumerate 0 segs) n = (Inr docs, n')"
    by blast
  with s show ?thesis by (simp add: create_chunks_def)
qed

lemma create_chunks_char:
  assumes "create_chunks w self text src ty md n = Some (Inr docs, n')"
  shows "\<exists>segs. chunk_text text (chunk_size self) (chunk_overlap self) = Some (Inr segs)
     \<and> map doc_id docs = map (\<lambda>i. generate_id (src @ ''_'' @ str_nat i))
           (filter (\<lambda>i. 50 \<le> length (strip (segs ! i))) [0..<length segs])
     \<and> map doc_content docs = map (\<lambda>i. segs ! i)
           (filter (\<lambda>i. 50 \<le> length (strip (segs ! i))) [0..<length segs])
     \<and> map (\<lambda>d. metadata d ''chunk_index'') docs = map (\<lambda>i. Some (VInt (int i)))
           (filter (\<lambda>i. 50 \<le> length (strip (segs ! i))) [0..<length segs])
     \<and> (\<forall>d \<in> set docs. metadata d ''total_chunks'' = Some (VInt (int (length segs)))
           \<and> metadata d ''chunk_size'' = Some (VInt (int (length (doc_content d))))
           \<and> source_url d = src \<and> document_type d = ty)"
proof -
  from create_chunks_Inr [OF assms] obtain segs where
    s: "chunk_text text (chunk_size self) (chunk_overlap self) = Some (Inr segs)"
    and l: "create_chunks_loop w src ty md (length segs) (enumerate 0 segs) n = (Inr docs, n')"
    by blast
  note c = create_chunks_loop_Inr [OF l, unfolded filter_keep_enumerate map_map comp_def fst_conv snd_conv]
  from s c show ?thesis by blast
qed

lemma example_segments:
  "chunk_text example_text 60 1 = Some (Inr [''aaaaaaaaaaaaaaaaaaaaaaaaaaaaaaaaaaaaaaaaaaaaaaaaaaaaaaaaaaaa'', ''a'', ''bbbbbbbbbbbbbbbbbbbbbbbbbbbbbbbbbbbbbbbbbbbbbbbbbbbbbbbbbbb'', ''bb''])"
  by code_simp

lemma example_kept:
  "filter (\<lambda>i. 50 \<le> length (strip ([''aaaaaaaaaaaaaaaaaaaaaaaaaaaaaaaaaaaaaaaaaaaaaaaaaaaaaaaaaaaa'', ''a'', ''bbbbbbbbbbbbbbbbbbbbbbbbbbbbbbbbbbbbbbbbbbbbbbbbbbbbbbbbbbb'', ''bb''] ! i))) [0..<4] = [0, 2]"
  by code_simp

lemma example_create_chunks:
  "\<exists>docs n'. create_chunks w example_processor text src ty Map.empty n = Some (Inr docs, n')"
proof -
  have "validate_optional_str (Map.empty ''api_endpoint'') = Inr None"
    by (simp add: validate_optional_str_def)
  then show ?thesis by (intro create_chunks_total) simp_all
qed

lemma extract_metadata_endpoint:
  "\<exists>ep. validate_optional_str (extract_metadata w raw_doc ty ''api_endpoint'') = Inr ep"
proof -
  have "extract_metadata w raw_doc ty ''api_endpoint'' = None
        \<or> (\<exists>s. extract_metadata w raw_doc ty ''api_endpoint'' = Some (VStr s))"
    by (simp add: extract_metadata_def Let_def split: option.splits)
  then show ?thesis by (auto simp: validate_optional_str_def)
qed

lemma process_single_document_Inr:
  assumes "process_single_document w self raw_doc n = Some (Inr processed, n')"
  shows "\<exists>docs n1. create_chunks w self (content raw_doc) (url raw_doc)
             (classify_document raw_doc)
             (extract_metadata w raw_doc (classify_document raw_doc)) (n + 1)
           = Some (Inr docs, n1)
         \<and> processed = \<lparr>original_url = url raw_doc, chunks = docs,
                total_chunks = int (length docs),
                processing_time = time_time w n1 - time_time w n, errors = []\<rparr>"
proof -
  let ?c = "create_chunks w self (content raw_doc) (url raw_doc) (classify_document raw_doc)
             (extract_metadata w raw_doc (classify_document raw_doc)) (n + 1)"
  show ?thesis
  proof (cases ?c)
    case None
    with assms show ?thesis by (simp add: process_single_document_def Let_def)
  next
    case (Some rn)
    obtain r n1 where rn: "rn = (r, n1)" by (cases rn)
    show ?thesis
    proof (cases r)
      case (Inl e)
      with Some rn assms show ?thesis by (simp add: process_single_document_def Let_def)
    next
      case (Inr docs)
      with Some rn assms show ?thesis by (simp add: process_single_document_def Let_def)
    qed
  qed
qed

lemma process_single_document_total:
  assumes "0 < chunk_size self" "0 \<le> chunk_overlap self" "chunk_overlap self < chunk_size self"
  shows "\<exists>processed n'. process_single_document w self raw_doc n = Some (Inr processed, n')"
proof -
  from extract_metadata_endpoint obtain ep where
    ep: "validate_optional_str (extract_metadata w raw_doc (classify_document raw_doc) ''api_endpoint'')
       = Inr ep" by blast
  have "\<exists>docs n1. create_chunks w self (content raw_doc) (url raw_doc)
             (classify_document raw_doc)
             (extract_metadata w raw_doc (classify_document raw_doc)) (n + 1)
       = Some (Inr docs, n1)"
    using assms ep by (rule create_chunks_total)
  then obtain docs n1 where
    "create_chunks w self (content raw_doc) (url raw_doc) (classify_document raw_doc)
             (extract_metadata w raw_doc (classify_document raw_doc)) (n + 1)
       = Some (Inr docs, n1)" by blast
  then show ?thesis by (simp add: process_single_document_def Let_def)
qed

lemma strict_sorted_filter_upt: "sorted_wrt (<) (filter P [0..<k])"
  by (rule sorted_wrt_filter) simp

lemma example_id_strings:
  "''http://test.com'' @ ''_'' @ str_nat 0 = ''http://test.com_0''"
  "''http://test.com'' @ ''_'' @ str_nat 2 = ''http://test.com_2''"
  by code_simp+

section \<open>Properties of the classifier and of the metadata\<close>

lemma str_contains_iff: "str_contains hay needle \<longleftrightarrow> (\<exists>pre suf. hay = pre @ needle @ suf)"
proof (induction hay)
  case Nil
  then show ?case by auto
next
  case (Cons c cs)
  have "take (length needle) (c # cs) = needle \<longleftrightarrow> (\<exists>suf. c # cs = needle @ suf)"
    by (metis append_eq_conv_conj append_take_drop_id)
  moreover have "(\<exists>pre suf. c # cs = pre @ needle @ suf) \<longleftrightarrow>
        (\<exists>suf. c # cs = needle @ suf) \<or> (\<exists>pre suf. cs = pre @ needle @ suf)"
  proof
    assume "\<exists>pre suf. c # cs = pre @ needle @ suf"
    then obtain pre suf where e: "c # cs = pre @ needle @ suf" by blast
    show "(\<exists>suf. c # cs = needle @ suf) \<or> (\<exists>pre suf. cs = pre @ needle @ suf)"
    proof (cases pre)
      case Nil
      with e show ?thesis by auto
    next
      case (Cons p ps)
      with e have "cs = ps @ needle @ suf" by simp
      then show ?thesis by blast
    qed
  next
    assume "(\<exists>suf. c # cs = needle @ suf) \<or> (\<exists>pre suf. cs = pre @ needle @ suf)"
    then show "\<exists>pre suf. c # cs = pre @ needle @ suf"
    proof
      assume "\<exists>suf. c # cs = needle @ suf"
      then obtain suf where "c # cs = [] @ needle @ suf" by auto
      then show ?thesis by blast
    next
      assume "\<exists>pre suf. cs = pre @ needle @ suf"
      then obtain pre suf where "c # cs = (c # pre) @ needle @ suf" by auto
      then show ?thesis by blast
    qed
  qed
  ultimately show ?case using Cons.IH by simp
qed

lemma str_contains_lower:
  assumes "str_contains hay needle"
  shows "str_contains (lower hay) (lower needle)"
proof -
  from assms obtain pre suf where "hay = pre @ needle @ suf"
    by (auto simp: str_contains_iff)
  then have "lower hay = lower pre @ lower needle @ lower suf"
    by (simp add: lower_def)
  then show ?thesis unfolding str_contains_iff by blast
qed

lemma lower_example: "lower ''example'' = ''example''"
  by code_simp

lemma lower_tutorial: "lower ''tutorial'' = ''tutorial''"
  by code_simp

lemma classify_document_refines: "classify_document d = classify_spec (url d) (content d)"
  by (simp add: classify_document_def classify_spec_def classify_rules_def Let_def)


lemma first_match_nth:
  "i < length rules \<Longrightarrow> fst (rules ! i) c u \<Longrightarrow> \<forall>j<i. \<not> fst (rules ! j) c u \<Longrightarrow>
   first_match rules c u = snd (rules ! i)"
proof (induction rules arbitrary: i)
  case Nil
  then show ?case by simp
next
  case (Cons r rules)
  obtain p t where r: "r = (p, t)" by (cases r)
  show ?case
  proof (cases i)
    case 0
    with Cons.prems r show ?thesis by simp
  next
    case (Suc k)
    with Cons.prems have "\<not> fst ((r # rules) ! 0) c u" by blast
    then have np: "\<not> p c u" using r by simp
    have "\<forall>j<k. \<not> fst (rules ! j) c u"
    proof (intro allI impI)
      fix j assume "j < k"
      then have "Suc j < i" using Suc by simp
      with Cons.prems(3) have "\<not> fst ((r # rules) ! Suc j) c u" by blast
      then show "\<not> fst (rules ! j) c u" by simp
    qed
    moreover have "k < length rules" "fst (rules ! k) c u"
      using Cons.prems(1,2) Suc by simp_all
    ultimately have "first_match rules c u = snd (rules ! k)"
      by (intro Cons.IH)
    with np r Suc show ?thesis by simp
  qed
qed

lemma first_match_none:
  "\<forall>r \<in> set rules. \<not> fst r c u \<Longrightarrow> first_match rules c u = OVERVIEW"
  by (induction rules) auto

text \<open>
  C4: \<open>classify_document\<close> is a function of the document alone and is the first-match
  evaluation of the six ordered rules over the lower-cased content and URL, with
  \<open>overview\<close> as the seventh, default rule: the first rule that matches decides; a content
  containing both "example" and "tutorial" (in any case) gives \<open>example\<close>; no matching
  rule gives \<open>overview\<close>.
\<close>

theorem classify_document_first_match:
  "classify_document d = classify_spec (url d) (content d)
   \<and> (\<forall>i < length classify_rules.
         fst (classify_rules ! i) (lower (content d)) (lower (url d)) \<and>
         (\<forall>j < i. \<not> fst (classify_rules ! j) (lower (content d)) (lower (url d)))
         \<longrightarrow> classify_document d = snd (classify_rules ! i))
   \<and> (str_contains (lower (content d)) ''example'' \<and> str_contains (lower (content d)) ''tutorial''
        \<longrightarrow> classify_document d = EXAMPLE)
   \<and> (str_contains (content d) ''example'' \<and> str_contains (content d) ''tutorial''
        \<longrightarrow> classify_document d = EXAMPLE)
   \<and> ((\<forall>r \<in> set classify_rules. \<not> fst r (lower (content d)) (lower (url d)))
        \<longrightarrow> classify_document d = OVERVIEW)"
proof (intro conjI allI impI)
  show "classify_document d = classify_spec (url d) (content d)"
    by (rule classify_document_refines)
next
  fix i
  assume "i < length classify_rules"
    and "fst (classify_rules ! i) (lower (content d)) (lower (url d)) \<and>
         (\<forall>j < i. \<not> fst (classify_rules ! j) (lower (content d)) (lower (url d)))"
  then show "classify_document d = snd (classify_rules ! i)"
    unfolding classify_document_refines classify_spec_def
    by (intro first_match_nth) simp_all
next
  assume "str_contains (lower (content d)) ''example'' \<and> str_contains (lower (content d)) ''tutorial''"
  then show "classify_document d = EXAMPLE"
    by (simp add: classify_document_def Let_def)
next
  assume "str_contains (content d) ''example'' \<and> str_contains (content d) ''tutorial''"
  then have "str_contains (lower (content d)) (lower ''example'')"
    by (intro str_contains_lower) simp
  then show "classify_document d = EXAMPLE"
    by (simp add: classify_document_def Let_def lower_example)
next
  assume "\<forall>r \<in> set classify_rules. \<not> fst r (lower (content d)) (lower (url d))"
  then show "classify_document d = OVERVIEW"
    unfolding classify_document_refines classify_spec_def
    by (rule first_match_none)
qed

theorem classify_document_first_match_witness:
  "str_contains ''An Example inside a tutorial'' ''tutorial''
   \<and> classify_document \<lparr>url = ''http://test.com'', content = ''An Example inside a tutorial'',
        content_type = ''text'', headers = Map.empty, timestamp = ''2024-01-01T00:00:00''\<rparr> = EXAMPLE
   \<and> str_contains ''an example inside a tutorial'' ''example''
   \<and> classify_document \<lparr>url = ''http://test.com'', content = ''an example inside a tutorial'',
        content_type = ''text'', headers = Map.empty, timestamp = ''2024-01-01T00:00:00''\<rparr> = EXAMPLE
   \<and> classify_document \<lparr>url = ''http://test.com'', content = ''A Guide to the API'',
        content_type = ''text'', headers = Map.empty, timestamp = ''2024-01-01T00:00:00''\<rparr> = TUTORIAL
   \<and> classify_document \<lparr>url = ''http://test.com'', content = ''Plain words'',
        content_type = ''text'', headers = Map.empty, timestamp = ''2024-01-01T00:00:00''\<rparr> = OVERVIEW"
proof -
  let ?d1 = "\<lparr>url = ''http://test.com'', content = ''An Example inside a tutorial'',
        content_type = ''text'', headers = Map.empty, timestamp = ''2024-01-01T00:00:00''\<rparr>"
  let ?d2 = "\<lparr>url = ''http://test.com'', content = ''an example inside a tutorial'',
        content_type = ''text'', headers = Map.empty, timestamp = ''2024-01-01T00:00:00''\<rparr>"
  let ?d3 = "\<lparr>url = ''http://test.com'', content = ''A Guide to the API'',
        content_type = ''text'', headers = Map.empty, timestamp = ''2024-01-01T00:00:00''\<rparr>"
  let ?d4 = "\<lparr>url = ''http://test.com'', content = ''Plain words'',
        content_type = ''text'', headers = Map.empty, timestamp = ''2024-01-01T00:00:00''\<rparr>"
  have h1: "str_contains (lower (content ?d1)) ''example'' \<and>
            str_contains (lower (content ?d1)) ''tutorial''" by code_simp
  have h2: "str_contains (content ?d2) ''example'' \<and> str_contains (content ?d2) ''tutorial''"
    by code_simp
  have h3: "fst (classify_rules ! 4) (lower (content ?d3)) (lower (url ?d3)) \<and>
         (\<forall>j < 4. \<not> fst (classify_rules ! j) (lower (content ?d3)) (lower (url ?d3)))"
  proof -
    have "fst (classify_rules ! 4) (lower (content ?d3)) (lower (url ?d3))" by code_simp
    moreover have "\<not> fst (classify_rules ! j) (lower (content ?d3)) (lower (url ?d3))"
      if "j < 4" for j
    proof -
      from that have "j = 0 \<or> j = 1 \<or> j = 2 \<or> j = 3" by arith
      moreover have "\<not> fst (classify_rules ! 0) (lower (content ?d3)) (lower (url ?d3))"
        by code_simp
      moreover have "\<not> fst (classify_rules ! 1) (lower (content ?d3)) (lower (url ?d3))"
        by code_simp
      moreover have "\<not> fst (classify_rules ! 2) (lower (content ?d3)) (lower (url ?d3))"
        by code_simp
      moreover have "\<not> fst (classify_rules ! 3) (lower (content ?d3)) (lower (url ?d3))"
        by code_simp
      ultimately show ?thesis by blast
    qed
    ultimately show ?thesis by blast
  qed
  have l: "(4::nat) < length classify_rules" by (simp add: classify_rules_def)
  have s3: "snd (classify_rules ! 4) = TUTORIAL" by (simp add: classify_rules_def)
  have h4: "\<forall>r \<in> set classify_rules. \<not> fst r (lower (content ?d4)) (lower (url ?d4))"
    by code_simp
  have e0: "str_contains ''An Example inside a tutorial'' ''tutorial''" by code_simp
  note t1 = classify_document_first_match [of ?d1, THEN conjunct2, THEN conjunct2,
      THEN conjunct1, rule_format, OF h1]
  note t2 = classify_document_first_match [of ?d2, THEN conjunct2, THEN conjunct2,
      THEN conjunct2, THEN conjunct1, rule_format, OF h2]
  note t3 = classify_document_first_match [of ?d3, THEN conjunct2, THEN conjunct1,
      rule_format, OF l h3]
  note t4 = classify_document_first_match [of ?d4, THEN conjunct2, THEN conjunct2,
      THEN conjunct2, THEN conjunct2, THEN mp, OF h4]
  from h2 have e2: "str_contains ''an example inside a tutorial'' ''example''" by simp
  from e0 t1 e2 t2 t3 [unfolded s3] t4 show ?thesis by (intro conjI)
qed

lemma api_nasa_gov_in_apod_url: "str_contains ''https://api.nasa.gov/#apod'' ''api.nasa.gov''"
  by code_simp

lemma apod_url_parts:
  "split ''https://api.nasa.gov/#apod'' CHR ''/'' = [''https:'', [], ''api.nasa.gov'', ''#apod'']"
  by code_simp

text \<open>
  C1 (what the code does at the input of the claim): for the URL
  "https://api.nasa.gov/#apod", whatever the content and the type, the metadata has no
  key \<open>api_endpoint\<close>: no part of the URL between two slashes is exactly "#".
\<close>

theorem extract_metadata_apod_no_endpoint:
  "extract_metadata w \<lparr>url = ''https://api.nasa.gov/#apod'', content = c, content_type = ct,
      headers = h, timestamp = t\<rparr> ty ''api_endpoint'' = None"
  by (simp add: extract_metadata_def Let_def api_nasa_gov_in_apod_url apod_url_parts)

lemma extract_metadata_hash_part:
  "extract_metadata w \<lparr>url = ''https://api.nasa.gov/#/apod'', content = c, content_type = ct,
      headers = h, timestamp = t\<rparr> ty ''api_endpoint'' = Some (VStr ''apod'')"
proof -
  have 1: "str_contains ''https://api.nasa.gov/#/apod'' ''api.nasa.gov''" by code_simp
  have 2: "endpoint_of_parts (split ''https://api.nasa.gov/#/apod'' CHR ''/'') = Some ''apod''"
    by code_simp
  show ?thesis by (simp add: extract_metadata_def Let_def 1 2)
qed

section \<open>Claims about the segmenter\<close>

text \<open>
  C8: for every text, every maxSize > 0 and every overlap with 0 <= overlap < maxSize,
  \<open>chunk_text\<close> returns (the loop does not run forever and raises nothing); an iteration
  entered at window start \<open>start\<close> continues the loop at \<open>end - overlap\<close>, which is
  strictly greater than \<open>start\<close>; and the empty text gives the empty list, whatever the
  sizes.
\<close>

theorem chunk_text_terminates:
  assumes "0 < maxSize" "0 \<le> overlap" "overlap < maxSize"
  shows "(\<exists>cks. chunk_text text maxSize overlap = Some (Inr cks))
       \<and> (\<forall>start acc. 0 \<le> start \<and> start < int (length text) \<longrightarrow>
            (\<exists>s e. window text maxSize overlap start = Inr (s, e) \<and> start < e - overlap
               \<and> chunk_loop text maxSize overlap start acc =
                   chunk_loop text maxSize overlap (e - overlap)
                     (append_chunk acc (strip (py_slice text s e)))))
       \<and> (\<forall>cs ov. chunk_text [] cs ov = Some (Inr []))"
proof (intro conjI allI impI)
  show "\<exists>cks. chunk_text text maxSize overlap = Some (Inr cks)"
  proof (cases "text = []")
    case True
    then show ?thesis by (simp add: chunk_text_def)
  next
    case False
    have "\<exists>res. chunk_loop text maxSize overlap 0 [] = Some (Inr res)
               \<and> (\<forall>c \<in> set res. good_chunk maxSize overlap c)"
      using assms by (intro chunk_loop_total) simp_all
    with False show ?thesis by (auto simp: chunk_text_def)
  qed
next
  fix start acc
  assume st: "0 \<le> start \<and> start < int (length text)"
  then have "0 \<le> start" by simp
  from window_ok [OF assms(1,2) this, of "text"] obtain s e where
    w: "window text maxSize overlap start = Inr (s, e)" "start + maxSize \<le> e" by blast
  have "start < e - overlap" using w(2) assms by linarith
  moreover have "chunk_loop text maxSize overlap start acc =
                   chunk_loop text maxSize overlap (e - overlap)
                     (append_chunk acc (strip (py_slice text s e)))"
    using st w(1) by (subst chunk_loop.simps) simp
  ultimately show "\<exists>s e. window text maxSize overlap start = Inr (s, e) \<and> start < e - overlap
               \<and> chunk_loop text maxSize overlap start acc =
                   chunk_loop text maxSize overlap (e - overlap)
                     (append_chunk acc (strip (py_slice text s e)))"
    using w(1) by blast
next
  fix cs ov
  show "chunk_text [] cs ov = Some (Inr [])" by (simp add: chunk_text_def)
qed

theorem chunk_text_terminates_witness:
  "(0::int) < 10 \<and> (0::int) \<le> 5 \<and> (5::int) < 10
   \<and> (\<exists>cks. chunk_text ''a.aaaaaaaaaaaaaaaaa.'' 10 5 = Some (Inr cks))
   \<and> (\<exists>s e. window ''a.aaaaaaaaaaaaaaaaa.'' 10 5 5 = Inr (s, e) \<and> 5 < e - 5
         \<and> chunk_loop ''a.aaaaaaaaaaaaaaaaa.'' 10 5 5 [''a.aaaaaaaa''] =
             chunk_loop ''a.aaaaaaaaaaaaaaaaa.'' 10 5 (e - 5)
               (append_chunk [''a.aaaaaaaa''] (strip (py_slice ''a.aaaaaaaaaaaaaaaaa.'' s e))))
   \<and> chunk_text [] 10 5 = Some (Inr [])"
proof -
  have h: "(0::int) < 10" "(0::int) \<le> 5" "(5::int) < 10" by simp_all
  have r: "(0::int) \<le> 5 \<and> (5::int) < int (length ''a.aaaaaaaaaaaaaaaaa.'')" by simp
  note t = chunk_text_terminates [OF h, of "''a.aaaaaaaaaaaaaaaaa.''"]
  note t1 = t [THEN conjunct1]
  note t2 = t [THEN conjunct2, THEN conjunct1, rule_format, of 5 "[''a.aaaaaaaa'']", OF r]
  note t3 = t [THEN conjunct2, THEN conjunct2, rule_format, of 10 5]
  from h t1 t2 t3 show ?thesis by (intro conjI)
qed

text \<open>
  C2 (as the code has it): under the same conditions every returned chunk is already
  trimmed and non-empty, and its length is at most
  \<open>max (maxSize + overlap) (maxSize + 2 * overlap - 2)\<close>: the end of a window is
  computed from the start before the start is moved back to a break character.
\<close>

theorem chunk_text_chunk_bounds:
  assumes "0 < maxSize" "0 \<le> overlap" "overlap < maxSize"
  shows "\<exists>cks. chunk_text text maxSize overlap = Some (Inr cks)
           \<and> (\<forall>c \<in> set cks.
                 int (length c) \<le> max (maxSize + overlap) (maxSize + 2 * overlap - 2)
                 \<and> strip c = c \<and> strip c \<noteq> [])"
proof (cases "text = []")
  case True
  then show ?thesis by (simp add: chunk_text_def)
next
  case False
  have "\<exists>res. chunk_loop text maxSize overlap 0 [] = Some (Inr res)
             \<and> (\<forall>c \<in> set res. good_chunk maxSize overlap c)"
    using assms by (intro chunk_loop_total) simp_all
  with False show ?thesis by (auto simp: chunk_text_def good_chunk_def chunk_bound_def)
qed

theorem chunk_text_chunk_bounds_witness:
  "(0::int) < 10 \<and> (0::int) \<le> 5 \<and> (5::int) < 10
   \<and> chunk_text ''a.aaaaaaaaaaaaaaaaa.'' 10 5
       = Some (Inr [''a.aaaaaaaa'', ''aaaaaaaaaaaaaaaaa.'', ''aaaa.''])
   \<and> int (length ''aaaaaaaaaaaaaaaaa.'') \<le> max (10 + 5) (10 + 2 * 5 - 2)
   \<and> strip ''aaaaaaaaaaaaaaaaa.'' = ''aaaaaaaaaaaaaaaaa.''"
proof -
  have h: "(0::int) < 10" "(0::int) \<le> 5" "(5::int) < 10" by simp_all
  have ev: "chunk_text ''a.aaaaaaaaaaaaaaaaa.'' 10 5
       = Some (Inr [''a.aaaaaaaa'', ''aaaaaaaaaaaaaaaaa.'', ''aaaa.''])" by code_simp
  from chunk_text_chunk_bounds [OF h, of "''a.aaaaaaaaaaaaaaaaa.''"] ev
  show ?thesis by auto
qed

theorem chunk_text_length_counterexample:
  "(0::int) < 10 \<and> (0::int) \<le> 5 \<and> (5::int) < 10
   \<and> chunk_text ''a.aaaaaaaaaaaaaaaaa.'' 10 5
       = Some (Inr [''a.aaaaaaaa'', ''aaaaaaaaaaaaaaaaa.'', ''aaaa.''])
   \<and> \<not> int (length ''aaaaaaaaaaaaaaaaa.'') \<le> 10 + 5"
proof -
  have ev: "chunk_text ''a.aaaaaaaaaaaaaaaaa.'' 10 5
       = Some (Inr [''a.aaaaaaaa'', ''aaaaaaaaaaaaaaaaa.'', ''aaaa.''])" by code_simp
  then show ?thesis by simp
qed

section \<open>Claims about the assembler\<close>

text \<open>
  C6: in the output of \<open>create_chunks\<close> every chunk has a trimmed content of at least 50
  characters, and the contents of the output are exactly the segments of \<open>chunk_text\<close>
  whose trimmed length is at least 50, in their order: every shorter segment is skipped.
\<close>

theorem create_chunks_degenerate_filter:
  assumes "create_chunks w self text src ty md n = Some (Inr docs, n')"
  shows "(\<forall>d \<in> set docs. 50 \<le> length (strip (doc_content d)))
       \<and> (\<exists>segs. chunk_text text (chunk_size self) (chunk_overlap self) = Some (Inr segs)
             \<and> map doc_content docs = filter (\<lambda>c. 50 \<le> length (strip c)) segs)"
proof -
  from create_chunks_char [OF assms] obtain segs where
    s: "chunk_text text (chunk_size self) (chunk_overlap self) = Some (Inr segs)"
    and c: "map doc_content docs = map (\<lambda>i. segs ! i)
           (filter (\<lambda>i. 50 \<le> length (strip (segs ! i))) [0..<length segs])"
    by blast
  have m: "map doc_content docs = filter (\<lambda>c. 50 \<le> length (strip c)) segs"
    unfolding c by (rule filter_nth_upt)
  have "\<forall>d \<in> set docs. 50 \<le> length (strip (doc_content d))"
  proof
    fix d assume "d \<in> set docs"
    then have "doc_content d \<in> set (map doc_content docs)" by simp
    then show "50 \<le> length (strip (doc_content d))" unfolding m by simp
  qed
  with s m show ?thesis by blast
qed

theorem create_chunks_degenerate_filter_witness:
  "\<exists>docs n'. create_chunks example_env example_processor example_text ''http://test.com''
       OVERVIEW Map.empty 0 = Some (Inr docs, n')
     \<and> list_all (\<lambda>d. 50 \<le> length (strip (doc_content d))) docs
     \<and> map doc_content docs = [''aaaaaaaaaaaaaaaaaaaaaaaaaaaaaaaaaaaaaaaaaaaaaaaaaaaaaaaaaaaa'', ''bbbbbbbbbbbbbbbbbbbbbbbbbbbbbbbbbbbbbbbbbbbbbbbbbbbbbbbbbbb'']"
proof -
  from example_create_chunks obtain docs n' where
    c: "create_chunks example_env example_processor example_text ''http://test.com''
       OVERVIEW Map.empty 0 = Some (Inr docs, n')" by blast
  note t = create_chunks_degenerate_filter [OF c]
  from t have 1: "list_all (\<lambda>d. 50 \<le> length (strip (doc_content d))) docs"
    by (simp add: list_all_iff)
  have f: "filter (\<lambda>c. 50 \<le> length (strip c)) [''aaaaaaaaaaaaaaaaaaaaaaaaaaaaaaaaaaaaaaaaaaaaaaaaaaaaaaaaaaaa'', ''a'', ''bbbbbbbbbbbbbbbbbbbbbbbbbbbbbbbbbbbbbbbbbbbbbbbbbbbbbbbbbbb'', ''bb'']
           = [''aaaaaaaaaaaaaaaaaaaaaaaaaaaaaaaaaaaaaaaaaaaaaaaaaaaaaaaaaaaa'', ''bbbbbbbbbbbbbbbbbbbbbbbbbbbbbbbbbbbbbbbbbbbbbbbbbbbbbbbbbbb'']" by code_simp
  from t obtain segs where
    s: "chunk_text example_text (chunk_size example_processor) (chunk_overlap example_processor)
          = Some (Inr segs)"
    and m: "map doc_content docs = filter (\<lambda>c. 50 \<le> length (strip c)) segs" by blast
  from s have segs: "segs = [''aaaaaaaaaaaaaaaaaaaaaaaaaaaaaaaaaaaaaaaaaaaaaaaaaaaaaaaaaaaa'', ''a'', ''bbbbbbbbbbbbbbbbbbbbbbbbbbbbbbbbbbbbbbbbbbbbbbbbbbbbbbbbbbb'', ''bb'']"
    by (simp add: example_segments)
  have 2: "map doc_content docs = [''aaaaaaaaaaaaaaaaaaaaaaaaaaaaaaaaaaaaaaaaaaaaaaaaaaaaaaaaaaaa'', ''bbbbbbbbbbbbbbbbbbbbbbbbbbbbbbbbbbbbbbbbbbbbbbbbbbbbbbbbbbb'']"
    using m unfolding segs f .
  from c 1 2 show ?thesis by (intro exI conjI)
qed

text \<open>
  C7: the chunks of \<open>create_chunks\<close> come in the order of the segments, and the
  \<open>chunk_index\<close> of a chunk, which is also the index hashed into its id, is the position
  of its segment in the list that \<open>chunk_text\<close> returned, before the filter: the indices
  of the output are the strictly increasing list of the positions that pass the filter,
  so they can have gaps.
\<close>

theorem create_chunks_chunk_index:
  assumes "create_chunks w self text src ty md n = Some (Inr docs, n')"
  shows "\<exists>segs idx. chunk_text text (chunk_size self) (chunk_overlap self) = Some (Inr segs)
     \<and> idx = filter (\<lambda>i. 50 \<le> length (strip (segs ! i))) [0..<length segs]
     \<and> sorted_wrt (<) idx
     \<and> map doc_content docs = map (\<lambda>i. segs ! i) idx
     \<and> map (\<lambda>d. metadata d ''chunk_index'') docs = map (\<lambda>i. Some (VInt (int i))) idx
     \<and> map doc_id docs = map (\<lambda>i. generate_id (src @ ''_'' @ str_nat i)) idx"
proof -
  from create_chunks_char [OF assms] obtain segs where
    c: "chunk_text text (chunk_size self) (chunk_overlap self) = Some (Inr segs)"
     "map doc_id docs = map (\<lambda>i. generate_id (src @ ''_'' @ str_nat i))
           (filter (\<lambda>i. 50 \<le> length (strip (segs ! i))) [0..<length segs])"
     "map doc_content docs = map (\<lambda>i. segs ! i)
           (filter (\<lambda>i. 50 \<le> length (strip (segs ! i))) [0..<length segs])"
     "map (\<lambda>d. metadata d ''chunk_index'') docs = map (\<lambda>i. Some (VInt (int i)))
           (filter (\<lambda>i. 50 \<le> length (strip (segs ! i))) [0..<length segs])"
    by blast
  have "sorted_wrt (<) (filter (\<lambda>i. 50 \<le> length (strip (segs ! i))) [0..<length segs])"
    by (rule strict_sorted_filter_upt)
  with c show ?thesis by blast
qed

theorem create_chunks_chunk_index_witness:
  "\<exists>docs n'. create_chunks example_env example_processor example_text ''http://test.com''
       OVERVIEW Map.empty 0 = Some (Inr docs, n')
     \<and> map doc_content docs = [''aaaaaaaaaaaaaaaaaaaaaaaaaaaaaaaaaaaaaaaaaaaaaaaaaaaaaaaaaaaa'', ''bbbbbbbbbbbbbbbbbbbbbbbbbbbbbbbbbbbbbbbbbbbbbbbbbbbbbbbbbbb'']
     \<and> map (\<lambda>d. metadata d ''chunk_index'') docs = [Some (VInt 0), Some (VInt 2)]
     \<and> map doc_id docs = [generate_id ''http://test.com_0'', generate_id ''http://test.com_2'']"
proof -
  from example_create_chunks obtain docs n' where
    c: "create_chunks example_env example_processor example_text ''http://test.com''
       OVERVIEW Map.empty 0 = Some (Inr docs, n')" by blast
  from create_chunks_chunk_index [OF c] obtain segs idx where
    s: "chunk_text example_text (chunk_size example_processor) (chunk_overlap example_processor)
          = Some (Inr segs)"
    and i: "idx = filter (\<lambda>i. 50 \<le> length (strip (segs ! i))) [0..<length segs]"
    and m: "map doc_content docs = map (\<lambda>i. segs ! i) idx"
      "map (\<lambda>d. metadata d ''chunk_index'') docs = map (\<lambda>i. Some (VInt (int i))) idx"
      "map doc_id docs = map (\<lambda>i. generate_id (''http://test.com'' @ ''_'' @ str_nat i)) idx"
    by blast
  from s have segs: "segs = [''aaaaaaaaaaaaaaaaaaaaaaaaaaaaaaaaaaaaaaaaaaaaaaaaaaaaaaaaaaaa'', ''a'', ''bbbbbbbbbbbbbbbbbbbbbbbbbbbbbbbbbbbbbbbbbbbbbbbbbbbbbbbbbbb'', ''bb'']"
    by (simp add: example_segments)
  have l: "length [''aaaaaaaaaaaaaaaaaaaaaaaaaaaaaaaaaaaaaaaaaaaaaaaaaaaaaaaaaaaa'', ''a'', ''bbbbbbbbbbbbbbbbbbbbbbbbbbbbbbbbbbbbbbbbbbbbbbbbbbbbbbbbbbb'', ''bb''] = 4" by simp
  have idx: "idx = [0, 2]" unfolding i segs l by (rule example_kept)
  have 1: "map doc_content docs = [''aaaaaaaaaaaaaaaaaaaaaaaaaaaaaaaaaaaaaaaaaaaaaaaaaaaaaaaaaaaa'', ''bbbbbbbbbbbbbbbbbbbbbbbbbbbbbbbbbbbbbbbbbbbbbbbbbbbbbbbbbbb'']"
    using m(1) unfolding idx segs by simp
  have 2: "map (\<lambda>d. metadata d ''chunk_index'') docs = [Some (VInt 0), Some (VInt 2)]"
    using m(2) unfolding idx by simp
  have 3: "map doc_id docs = [generate_id ''http://test.com_0'', generate_id ''http://test.com_2'']"
    using m(3) unfolding idx by (simp only: list.map example_id_strings)
  from c 1 2 3 show ?thesis by (intro exI conjI)
qed

text \<open>
  C5: two runs of \<open>create_chunks\<close> on the same content, URL, type and metadata, at any
  two states of the clock, give the same ids in the same order; the id of the chunk of
  segment \<open>i\<close> is \<open>generate_id\<close> of the URL, an underscore and the decimal \<open>i\<close>, that is
  the first 16 hexadecimal digits of the MD5 digest of that string.
\<close>

theorem create_chunks_ids_deterministic:
  assumes "create_chunks w1 self text src ty md n1 = Some (Inr docs1, k1)"
    and "create_chunks w2 self text src ty md n2 = Some (Inr docs2, k2)"
  shows "map doc_id docs1 = map doc_id docs2
     \<and> (\<exists>segs. chunk_text text (chunk_size self) (chunk_overlap self) = Some (Inr segs)
           \<and> map doc_id docs1 = map (\<lambda>i. generate_id (src @ ''_'' @ str_nat i))
                 (filter (\<lambda>i. 50 \<le> length (strip (segs ! i))) [0..<length segs]))
     \<and> (\<forall>d \<in> set docs1. length (doc_id d) = 16 \<and> set (doc_id d) \<subseteq> set ''0123456789abcdef'')
     \<and> (\<forall>t. generate_id t = take 16 (md5_hexdigest (encode t)))"
proof -
  from create_chunks_char [OF assms(1)] obtain segs where
    s1: "chunk_text text (chunk_size self) (chunk_overlap self) = Some (Inr segs)"
    and i1: "map doc_id docs1 = map (\<lambda>i. generate_id (src @ ''_'' @ str_nat i))
           (filter (\<lambda>i. 50 \<le> length (strip (segs ! i))) [0..<length segs])"
    by blast
  from create_chunks_char [OF assms(2)] obtain segs2 where
    s2: "chunk_text text (chunk_size self) (chunk_overlap self) = Some (Inr segs2)"
    and i2: "map doc_id docs2 = map (\<lambda>i. generate_id (src @ ''_'' @ str_nat i))
           (filter (\<lambda>i. 50 \<le> length (strip (segs2 ! i))) [0..<length segs2])"
    by blast
  from s1 s2 have "segs2 = segs" by simp
  with i1 i2 have same: "map doc_id docs1 = map doc_id docs2" by simp
  have hex: "\<forall>d \<in> set docs1. length (doc_id d) = 16
               \<and> set (doc_id d) \<subseteq> set ''0123456789abcdef''"
  proof
    fix d assume "d \<in> set docs1"
    then have "doc_id d \<in> set (map doc_id docs1)" by simp
    then obtain i where "doc_id d = generate_id (src @ ''_'' @ str_nat i)"
      unfolding i1 by auto
    then show "length (doc_id d) = 16 \<and> set (doc_id d) \<subseteq> set ''0123456789abcdef''"
      by (simp only: length_generate_id set_generate_id simp_thms)
  qed
  have "\<forall>t. generate_id t = take 16 (md5_hexdigest (encode t))"
    by (simp add: generate_id_def)
  with same s1 i1 hex show ?thesis by blast
qed

theorem create_chunks_ids_deterministic_witness:
  "\<exists>docs1 k1 docs2 k2.
     create_chunks example_env example_processor example_text ''http://test.com''
       OVERVIEW Map.empty 0 = Some (Inr docs1, k1)
     \<and> create_chunks \<lparr>re_findall = (\<lambda>pattern s. []), utcnow = (\<lambda>k. ''2025-06-30T12:00:00''),
            time_time = (\<lambda>k. 2 * real k)\<rparr> example_processor example_text ''http://test.com''
       OVERVIEW Map.empty 7 = Some (Inr docs2, k2)
     \<and> map doc_id docs1 = map doc_id docs2
     \<and> map doc_id docs1 = [generate_id ''http://test.com_0'', generate_id ''http://test.com_2'']
     \<and> list_all (\<lambda>d. length (doc_id d) = 16) docs1"
proof -
  from example_create_chunks obtain docs1 k1 where
    c1: "create_chunks example_env example_processor example_text ''http://test.com''
       OVERVIEW Map.empty 0 = Some (Inr docs1, k1)" by blast
  from example_create_chunks obtain docs2 k2 where
    c2: "create_chunks \<lparr>re_findall = (\<lambda>pattern s. []), utcnow = (\<lambda>k. ''2025-06-30T12:00:00''),
            time_time = (\<lambda>k. 2 * real k)\<rparr> example_processor example_text ''http://test.com''
       OVERVIEW Map.empty 7 = Some (Inr docs2, k2)" by blast
  note t = create_chunks_ids_deterministic [OF c1 c2]
  from t have same: "map doc_id docs1 = map doc_id docs2" by (rule conjunct1)
  from t obtain segs where
    s: "chunk_text example_text (chunk_size example_processor) (chunk_overlap example_processor)
          = Some (Inr segs)"
    and m: "map doc_id docs1 = map (\<lambda>i. generate_id (''http://test.com'' @ ''_'' @ str_nat i))
                 (filter (\<lambda>i. 50 \<le> length (strip (segs ! i))) [0..<length segs])"
    by blast
  from s have segs: "segs = [''aaaaaaaaaaaaaaaaaaaaaaaaaaaaaaaaaaaaaaaaaaaaaaaaaaaaaaaaaaaa'', ''a'', ''bbbbbbbbbbbbbbbbbbbbbbbbbbbbbbbbbbbbbbbbbbbbbbbbbbbbbbbbbbb'', ''bb'']"
    by (simp add: example_segments)
  have l: "length [''aaaaaaaaaaaaaaaaaaaaaaaaaaaaaaaaaaaaaaaaaaaaaaaaaaaaaaaaaaaa'', ''a'', ''bbbbbbbbbbbbbbbbbbbbbbbbbbbbbbbbbbbbbbbbbbbbbbbbbbbbbbbbbbb'', ''bb''] = 4" by simp
  have ids: "map doc_id docs1
      = [generate_id ''http://test.com_0'', generate_id ''http://test.com_2'']"
    using m unfolding segs l example_kept by (simp only: list.map example_id_strings)
  from t have "\<forall>d \<in> set docs1. length (doc_id d) = 16 \<and> set (doc_id d) \<subseteq> set ''0123456789abcdef''"
    by (elim conjE)
  then have len: "list_all (\<lambda>d. length (doc_id d) = 16) docs1"
    unfolding list_all_iff by blast
  from c1 c2 same ids len show ?thesis by (intro exI conjI)
qed

text \<open>
  C9: in every chunk that the processing of a document emits, the metadata field
  \<open>total_chunks\<close> is the number of segments that \<open>chunk_text\<close> returned, whereas the
  field \<open>total_chunks\<close> of the processed document is the number of chunks emitted, which
  is the number of segments that pass the filter; and there is a document for which the
  two numbers differ.
\<close>

theorem total_chunks_metadata_and_document:
  "(\<forall>w self raw_doc n processed n'.
      process_single_document w self raw_doc n = Some (Inr processed, n') \<longrightarrow>
        total_chunks processed = int (length (chunks processed))
        \<and> (\<exists>segs. chunk_text (content raw_doc) (chunk_size self) (chunk_overlap self)
                     = Some (Inr segs)
             \<and> (\<forall>d \<in> set (chunks processed).
                   metadata d ''total_chunks'' = Some (VInt (int (length segs))))
             \<and> length (chunks processed)
                 = length (filter (\<lambda>c. 50 \<le> length (strip c)) segs)))
   \<and> (\<exists>w self raw_doc n processed n'.
        process_single_document w self raw_doc n = Some (Inr processed, n')
        \<and> chunks processed \<noteq> []
        \<and> (\<forall>d \<in> set (chunks processed).
              metadata d ''total_chunks'' \<noteq> Some (VInt (total_chunks processed))))"
proof -
  have all: "\<forall>w self raw_doc n processed n'.
      process_single_document w self raw_doc n = Some (Inr processed, n') \<longrightarrow>
        total_chunks processed = int (length (chunks processed))
        \<and> (\<exists>segs. chunk_text (content raw_doc) (chunk_size self) (chunk_overlap self)
                     = Some (Inr segs)
             \<and> (\<forall>d \<in> set (chunks processed).
                   metadata d ''total_chunks'' = Some (VInt (int (length segs))))
             \<and> length (chunks processed)
                 = length (filter (\<lambda>c. 50 \<le> length (strip c)) segs))"
  proof (intro allI impI)
    fix w self raw_doc n processed n'
    assume p: "process_single_document w self raw_doc n = Some (Inr processed, n')"
    from process_single_document_Inr [OF p] obtain docs n1 where
      c: "create_chunks w self (content raw_doc) (url raw_doc) (classify_document raw_doc)
               (extract_metadata w raw_doc (classify_document raw_doc)) (n + 1)
             = Some (Inr docs, n1)"
      and pr: "processed = \<lparr>original_url = url raw_doc, chunks = docs,
                  total_chunks = int (length docs),
                  processing_time = time_time w n1 - time_time w n, errors = []\<rparr>"
      by blast
    from pr have ch: "chunks processed = docs"
      and tc: "total_chunks processed = int (length docs)"
      by simp_all
    from create_chunks_char [OF c] obtain segs where
      s: "chunk_text (content raw_doc) (chunk_size self) (chunk_overlap self) = Some (Inr segs)"
      and m: "map doc_content docs = map (\<lambda>i. segs ! i)
             (filter (\<lambda>i. 50 \<le> length (strip (segs ! i))) [0..<length segs])"
      and t: "\<forall>d \<in> set docs. metadata d ''total_chunks'' = Some (VInt (int (length segs)))"
      by blast
    have fn: "map (\<lambda>i. segs ! i)
             (filter (\<lambda>i. 50 \<le> length (strip (segs ! i))) [0..<length segs])
           = filter (\<lambda>c. 50 \<le> length (strip c)) segs"
      by (rule filter_nth_upt)
    have "length docs = length (map doc_content docs)" by simp
    also have "\<dots> = length (filter (\<lambda>c. 50 \<le> length (strip c)) segs)"
      unfolding m fn ..
    finally have l: "length docs = length (filter (\<lambda>c. 50 \<le> length (strip c)) segs)" .
    have 1: "total_chunks processed = int (length (chunks processed))"
      unfolding ch tc ..
    have 2: "\<exists>segs. chunk_text (content raw_doc) (chunk_size self) (chunk_overlap self)
                     = Some (Inr segs)
             \<and> (\<forall>d \<in> set (chunks processed).
                   metadata d ''total_chunks'' = Some (VInt (int (length segs))))
             \<and> length (chunks processed)
                 = length (filter (\<lambda>c. 50 \<le> length (strip c)) segs)"
      unfolding ch using s t l by (intro exI conjI)
    from 1 2 show "total_chunks processed = int (length (chunks processed))
        \<and> (\<exists>segs. chunk_text (content raw_doc) (chunk_size self) (chunk_overlap self)
                     = Some (Inr segs)
             \<and> (\<forall>d \<in> set (chunks processed).
                   metadata d ''total_chunks'' = Some (VInt (int (length segs))))
             \<and> length (chunks processed)
                 = length (filter (\<lambda>c. 50 \<le> length (strip c)) segs))"
      by (rule conjI)
  qed
  have ex: "\<exists>w self raw_doc n processed n'.
        process_single_document w self raw_doc n = Some (Inr processed, n')
        \<and> chunks processed \<noteq> []
        \<and> (\<forall>d \<in> set (chunks processed).
              metadata d ''total_chunks'' \<noteq> Some (VInt (total_chunks processed)))"
  proof -
    let ?raw = "\<lparr>url = ''http://test.com'', content = example_text, content_type = ''text'',
        headers = Map.empty, timestamp = ''2024-01-01T00:00:00''\<rparr>"
    have "\<exists>processed n'. process_single_document example_env example_processor ?raw 0
            = Some (Inr processed, n')"
      by (rule process_single_document_total) simp_all
    then obtain processed n' where
      p: "process_single_document example_env example_processor ?raw 0
            = Some (Inr processed, n')"
      by blast
    from all p have a: "total_chunks processed = int (length (chunks processed))
        \<and> (\<exists>segs. chunk_text (content ?raw) (chunk_size example_processor)
                       (chunk_overlap example_processor) = Some (Inr segs)
             \<and> (\<forall>d \<in> set (chunks processed).
                   metadata d ''total_chunks'' = Some (VInt (int (length segs))))
             \<and> length (chunks processed)
                 = length (filter (\<lambda>c. 50 \<le> length (strip c)) segs))"
      by blast
    then obtain segs where
      tc: "total_chunks processed = int (length (chunks processed))"
      and s: "chunk_text (content ?raw) (chunk_size example_processor)
                (chunk_overlap example_processor) = Some (Inr segs)"
      and t: "\<forall>d \<in> set (chunks processed).
                metadata d ''total_chunks'' = Some (VInt (int (length segs)))"
      and l: "length (chunks processed)
                = length (filter (\<lambda>c. 50 \<le> length (strip c)) segs)"
      by blast
    from s have segs: "segs = [''aaaaaaaaaaaaaaaaaaaaaaaaaaaaaaaaaaaaaaaaaaaaaaaaaaaaaaaaaaaa'', ''a'', ''bbbbbbbbbbbbbbbbbbbbbbbbbbbbbbbbbbbbbbbbbbbbbbbbbbbbbbbbbbb'', ''bb'']"
      by (simp add: example_segments)
    have f: "filter (\<lambda>c. 50 \<le> length (strip c)) [''aaaaaaaaaaaaaaaaaaaaaaaaaaaaaaaaaaaaaaaaaaaaaaaaaaaaaaaaaaaa'', ''a'', ''bbbbbbbbbbbbbbbbbbbbbbbbbbbbbbbbbbbbbbbbbbbbbbbbbbbbbbbbbbb'', ''bb'']
             = [''aaaaaaaaaaaaaaaaaaaaaaaaaaaaaaaaaaaaaaaaaaaaaaaaaaaaaaaaaaaa'', ''bbbbbbbbbbbbbbbbbbbbbbbbbbbbbbbbbbbbbbbbbbbbbbbbbbbbbbbbbbb'']" by code_simp
    have l2: "length (chunks processed) = 2" unfolding l segs f by simp
    have l4: "length segs = 4" unfolding segs by simp
    have ne: "chunks processed \<noteq> []" using l2 by auto
    have d: "\<forall>d \<in> set (chunks processed).
                metadata d ''total_chunks'' \<noteq> Some (VInt (total_chunks processed))"
      using t unfolding tc l2 l4 by simp
    from p ne d show ?thesis by (intro exI conjI)
  qed
  from all ex show ?thesis by (rule conjI)
qed

theorem total_chunks_metadata_and_document_witness:
  "\<exists>processed n'.
     process_single_document example_env example_processor
       \<lparr>url = ''http://test.com'', content = example_text, content_type = ''text'',
        headers = Map.empty, timestamp = ''2024-01-01T00:00:00''\<rparr> 0 = Some (Inr processed, n')
     \<and> total_chunks processed = 2
     \<and> list_all (\<lambda>d. metadata d ''total_chunks'' = Some (VInt 4)) (chunks processed)"
proof -
  let ?raw = "\<lparr>url = ''http://test.com'', content = example_text, content_type = ''text'',
      headers = Map.empty, timestamp = ''2024-01-01T00:00:00''\<rparr>"
  have "\<exists>processed n'. process_single_document example_env example_processor ?raw 0
          = Some (Inr processed, n')"
    by (rule process_single_document_total) simp_all
  then obtain processed n' where
    p: "process_single_document example_env example_processor ?raw 0
          = Some (Inr processed, n')"
    by blast
  note a = total_chunks_metadata_and_document [THEN conjunct1, rule_format, OF p]
  from a obtain segs where
    tc: "total_chunks processed = int (length (chunks processed))"
    and s: "chunk_text (content ?raw) (chunk_size example_processor)
              (chunk_overlap example_processor) = Some (Inr segs)"
    and t: "\<forall>d \<in> set (chunks processed).
              metadata d ''total_chunks'' = Some (VInt (int (length segs)))"
    and l: "length (chunks processed)
              = length (filter (\<lambda>c. 50 \<le> length (strip c)) segs)"
    by blast
  from s have segs: "segs = [''aaaaaaaaaaaaaaaaaaaaaaaaaaaaaaaaaaaaaaaaaaaaaaaaaaaaaaaaaaaa'', ''a'', ''bbbbbbbbbbbbbbbbbbbbbbbbbbbbbbbbbbbbbbbbbbbbbbbbbbbbbbbbbbb'', ''bb'']"
    by (simp add: example_segments)
  have f: "filter (\<lambda>c. 50 \<le> length (strip c)) [''aaaaaaaaaaaaaaaaaaaaaaaaaaaaaaaaaaaaaaaaaaaaaaaaaaaaaaaaaaaa'', ''a'', ''bbbbbbbbbbbbbbbbbbbbbbbbbbbbbbbbbbbbbbbbbbbbbbbbbbbbbbbbbbb'', ''bb'']
           = [''aaaaaaaaaaaaaaaaaaaaaaaaaaaaaaaaaaaaaaaaaaaaaaaaaaaaaaaaaaaa'', ''bbbbbbbbbbbbbbbbbbbbbbbbbbbbbbbbbbbbbbbbbbbbbbbbbbbbbbbbbbb'']" by code_simp
  have l2: "length (chunks processed) = 2" unfolding l segs f by simp
  have l4: "length segs = 4" unfolding segs by simp
  have 1: "total_chunks processed = 2" unfolding tc l2 by simp
  have 2: "list_all (\<lambda>d. metadata d ''total_chunks'' = Some (VInt 4)) (chunks processed)"
    using t unfolding l4 list_all_iff by simp
  from p 1 2 show ?thesis by (intro exI conjI)
qed

section \<open>Claims about the schema and the batch\<close>



end
